theory Spec2Isabelle
  imports Main
begin

text \<open>
  A model of the request layer of the geospatial data library: the range-expression
  parser, the two date-selection paths and the validation done by \<^verbatim>\<open>DataRequest\<close>
  (\<^verbatim>\<open>api_core/data_request.py\<close>), the naming of raster output files
  (\<^verbatim>\<open>api_core/data_request_output.py\<close>) and the earlier date parser
  (\<^verbatim>\<open>data_request.py\<close>). Python integers are \<open>int\<close>, strings are ASCII strings whose
  length is their number of characters, \<^verbatim>\<open>None\<close> is \<open>None\<close> of an option type, a raised
  exception is the left injection of a sum, and output to the console is left out.
\<close>

section \<open>Python values and exceptions\<close>

text \<open>
  Every \<^verbatim>\<open>raise\<close> of the sources is a value of \<open>py_error\<close>. All the explicit raises of
  the request model are \<^verbatim>\<open>ValueError\<close>s that differ in their message; the message is kept
  as a tag of type \<open>value_error\<close>, with the values the source formats into it.
  The remaining constructors are the exceptions that the interpreter itself raises.
\<close>

datatype value_error =
    InvalidRequestType
  | InvalidResamplingMethod string
  | InvalidPointMethod string
  | NoPointsProvided
  | InvalidGrainMethod string
  | NoRequestedGranularity string
  | InvalidOutputFormat string
  | StartEndRequired
  | EndPrecedesStart
  | InvalidMonth int
  | MismatchedGranularity
  | InvalidRangeString string
  | NoMaximumValue string
  | StartExceedsEnd string
  | NotGreaterThanZero string
  | EndExceedsMax string int
  | InvalidDateGranularity
  | UnsupportedRasterFormat
  | InvalidIntLiteral string
  | UnpackMismatch
  | RangeStepZero
  | DateFieldOutOfRange

datatype py_error =
    ValueError value_error
  | TypeError
  | NameError string
  | AttributeError string
  | KeyError string
  | OverflowError

section \<open>Built-ins used by the parsers\<close>

subsection \<open>\<^verbatim>\<open>int(str)\<close>\<close>

text \<open>
  \<^verbatim>\<open>int(s)\<close> on an ASCII string: surrounding whitespace (space, tab, line feed,
  vertical tab, form feed, carriage return) is stripped, one sign is allowed,
  and the rest is a non-empty run of decimal digits in which single underscores may
  separate digits. Anything else raises \<^verbatim>\<open>ValueError\<close>. (The interpreter's limit on the
  number of digits of one numeral is not modelled.)
\<close>

definition py_isspace :: "char \<Rightarrow> bool" where
  "py_isspace c = (of_char c \<in> {9, 10, 11, 12, 13, 32 :: nat})"

definition py_isdigit :: "char \<Rightarrow> bool" where
  "py_isdigit c = (48 \<le> (of_char c :: nat) \<and> (of_char c :: nat) \<le> 57)"

definition digit_val :: "char \<Rightarrow> nat" where
  "digit_val c = of_char c - 48"

definition py_strip :: "string \<Rightarrow> string" where
  "py_strip s = rev (dropWhile py_isspace (rev (dropWhile py_isspace s)))"

fun int_body :: "bool \<Rightarrow> nat \<Rightarrow> string \<Rightarrow> nat option" where
  "int_body prev acc [] = (if prev then Some acc else None)"
| "int_body prev acc (c # cs) =
     (if py_isdigit c then int_body True (acc * 10 + digit_val c) cs
      else if c = CHR ''_'' \<and> prev then int_body False acc cs
      else None)"

definition py_int :: "string \<Rightarrow> py_error + int" where
  "py_int s =
     (case py_strip s of
        [] \<Rightarrow> Inl (ValueError (InvalidIntLiteral s))
      | c # cs \<Rightarrow>
          if c = CHR ''-'' then
            (case int_body False 0 cs of
               None \<Rightarrow> Inl (ValueError (InvalidIntLiteral s))
             | Some n \<Rightarrow> Inr (- int n))
          else if c = CHR ''+'' then
            (case int_body False 0 cs of
               None \<Rightarrow> Inl (ValueError (InvalidIntLiteral s))
             | Some n \<Rightarrow> Inr (int n))
          else
            (case int_body False 0 (c # cs) of
               None \<Rightarrow> Inl (ValueError (InvalidIntLiteral s))
             | Some n \<Rightarrow> Inr (int n)))"

subsection \<open>\<^verbatim>\<open>str.split(sep)\<close> with a one-character separator\<close>

fun split_chr :: "char \<Rightarrow> string \<Rightarrow> string list" where
  "split_chr sep [] = [[]]"
| "split_chr sep (c # cs) =
     (if c = sep then [] # split_chr sep cs
      else (case split_chr sep cs of
              [] \<Rightarrow> [[c]]
            | p # ps \<Rightarrow> (c # p) # ps))"

subsection \<open>\<^verbatim>\<open>list(range(start, stop, step))\<close>\<close>

function range_up :: "int \<Rightarrow> int \<Rightarrow> int \<Rightarrow> int list" where
  "range_up i stop step =
     (if 0 < step \<and> i < stop then i # range_up (i + step) stop step else [])"
  by pat_completeness auto
termination
  by (relation "measure (\<lambda>(i, stop, step). nat (stop - i))") auto

function range_down :: "int \<Rightarrow> int \<Rightarrow> int \<Rightarrow> int list" where
  "range_down i stop step =
     (if step < 0 \<and> stop < i then i # range_down (i + step) stop step else [])"
  by pat_completeness auto
termination
  by (relation "measure (\<lambda>(i, stop, step). nat (i - stop))") auto

definition py_range :: "int \<Rightarrow> int \<Rightarrow> int \<Rightarrow> py_error + int list" where
  "py_range start stop step =
     (if step = 0 then Inl (ValueError RangeStepZero)
      else if 0 < step then Inr (range_up start stop step)
      else Inr (range_down start stop step))"

subsection \<open>\<^verbatim>\<open>str(int)\<close>\<close>

fun str_nat :: "nat \<Rightarrow> string" where
  "str_nat n =
     (if n < 10 then [char_of (48 + n)]
      else str_nat (n div 10) @ [char_of (48 + n mod 10)])"

definition py_str :: "int \<Rightarrow> string" where
  "py_str i = (if i < 0 then CHR ''-'' # str_nat (nat (- i)) else str_nat (nat i))"

section \<open>The range-expression parser\<close>

text \<open>
  \<^verbatim>\<open>DataRequest._parseRangeStr(rangestr, maxval)\<close> of \<^verbatim>\<open>api_core/data_request.py\<close>.
  The three stages follow the source: the split of the increment suffix, the choice of
  the ending value, and the checks before the range is built.
\<close>

definition end_and_inc :: "string \<Rightarrow> string \<Rightarrow> py_error + (string \<times> int)" where
  "end_and_inc rangestr part1 =
     (if CHR ''+'' \<in> set part1 then
        (let end_parts = split_chr CHR ''+'' part1 in
         if length end_parts \<noteq> 2 then Inl (ValueError (InvalidRangeString rangestr))
         else (case py_int (end_parts ! 1) of
                 Inl e \<Rightarrow> Inl e
               | Inr inc \<Rightarrow> Inr (end_parts ! 0, inc)))
      else Inr (part1, 1))"

definition ending_value :: "string \<Rightarrow> string \<Rightarrow> int option \<Rightarrow> py_error + int" where
  "ending_value rangestr endval_str maxval =
     (if endval_str = ''N'' then
        (case maxval of
           None \<Rightarrow> Inl (ValueError (NoMaximumValue rangestr))
         | Some m \<Rightarrow> Inr m)
      else py_int endval_str)"

definition checked_range ::
  "string \<Rightarrow> int option \<Rightarrow> int \<Rightarrow> int \<Rightarrow> int \<Rightarrow> py_error + int list" where
  "checked_range rangestr maxval startval endval inc =
     (if startval > endval then Inl (ValueError (StartExceedsEnd rangestr))
      else if startval \<le> 0 \<or> endval \<le> 0 then Inl (ValueError (NotGreaterThanZero rangestr))
      else
        (case maxval of
           None \<Rightarrow> py_range startval (endval + 1) inc
         | Some m \<Rightarrow>
             if endval > m then Inl (ValueError (EndExceedsMax rangestr m))
             else py_range startval (endval + 1) inc))"

definition parseRangeStr :: "string \<Rightarrow> int option \<Rightarrow> py_error + int list" where
  "parseRangeStr rangestr maxval =
     (let parts = split_chr CHR ''-'' rangestr in
      if length parts \<noteq> 2 then Inl (ValueError (InvalidRangeString rangestr))
      else
        (case py_int (parts ! 0) of
           Inl e \<Rightarrow> Inl e
         | Inr startval \<Rightarrow>
             (case end_and_inc rangestr (parts ! 1) of
                Inl e \<Rightarrow> Inl e
              | Inr (endval_str, inc) \<Rightarrow>
                  (case ending_value rangestr endval_str maxval of
                     Inl e \<Rightarrow> Inl e
                   | Inr endval \<Rightarrow> checked_range rangestr maxval startval endval inc))))"

text \<open>The messages of the five \<^verbatim>\<open>ValueError\<close>s that \<^verbatim>\<open>_parseRangeStr\<close> raises itself.\<close>

fun range_message :: "value_error \<Rightarrow> string" where
  "range_message (InvalidRangeString r) = ''Invalid range string: \"'' @ r @ ''\".''"
| "range_message (NoMaximumValue r) =
     ''Cannot interpret range string \"'' @ r @ ''\": no maximum value was provided.''"
| "range_message (StartExceedsEnd r) =
     ''Invalid range string: \"'' @ r @
     ''\". The starting value cannot exceed the ending value.''"
| "range_message (NotGreaterThanZero r) =
     ''Invalid range string: \"'' @ r @
     ''\". The starting and and ending values must be greater than 0.''"
| "range_message (EndExceedsMax r m) =
     ''Invalid range string: \"'' @ r @
     ''\". The ending value cannot exceed '' @ py_str m @ ''.''"
| "range_message _ = []"

section \<open>Dates\<close>

subsection \<open>Grains and request dates (\<^verbatim>\<open>api_core/data_request.py\<close>)\<close>

definition NONE :: int where "NONE = 0"
definition ANNUAL :: int where "ANNUAL = 1"
definition MONTHLY :: int where "MONTHLY = 2"
definition DAILY :: int where "DAILY = 3"

text \<open>The named tuple \<^verbatim>\<open>RequestDate(year, month, day)\<close>; month and day may be \<^verbatim>\<open>None\<close>.\<close>

datatype RequestDate = RequestDate (year: int) (month: "int option") (day: "int option")

subsection \<open>\<^verbatim>\<open>datetime.date\<close>\<close>

text \<open>
  A \<^verbatim>\<open>datetime.date\<close> is a day of the proleptic Gregorian calendar between
  0001-01-01 and 9999-12-31. The constructor raises \<^verbatim>\<open>ValueError\<close> on fields out of
  range; adding \<^verbatim>\<open>timedelta(days=1)\<close> gives the next calendar day and raises
  \<^verbatim>\<open>OverflowError\<close> when that day would lie beyond year 9999; dates compare as the
  triples (year, month, day).
\<close>

datatype py_date = Date (d_year: int) (d_month: int) (d_day: int)

definition MINYEAR :: int where "MINYEAR = 1"
definition MAXYEAR :: int where "MAXYEAR = 9999"

definition is_leap :: "int \<Rightarrow> bool" where
  "is_leap y = (y mod 4 = 0 \<and> (y mod 100 \<noteq> 0 \<or> y mod 400 = 0))"

definition days_in_month :: "int \<Rightarrow> int \<Rightarrow> int" where
  "days_in_month y m =
     (if m = 2 then (if is_leap y then 29 else 28)
      else if m = 4 \<or> m = 6 \<or> m = 9 \<or> m = 11 then 30
      else 31)"

definition valid_date :: "py_date \<Rightarrow> bool" where
  "valid_date dt =
     (MINYEAR \<le> d_year dt \<and> d_year dt \<le> MAXYEAR \<and> 1 \<le> d_month dt \<and> d_month dt \<le> 12
      \<and> 1 \<le> d_day dt \<and> d_day dt \<le> days_in_month (d_year dt) (d_month dt))"

definition dt_date :: "int \<Rightarrow> int \<Rightarrow> int \<Rightarrow> py_error + py_date" where
  "dt_date y m d =
     (if valid_date (Date y m d) then Inr (Date y m d)
      else Inl (ValueError DateFieldOutOfRange))"

definition next_day :: "py_date \<Rightarrow> py_date" where
  "next_day dt =
     (if d_day dt < days_in_month (d_year dt) (d_month dt)
        then Date (d_year dt) (d_month dt) (d_day dt + 1)
      else if d_month dt < 12 then Date (d_year dt) (d_month dt + 1) 1
      else Date (d_year dt + 1) 1 1)"

definition date_add_day :: "py_date \<Rightarrow> py_error + py_date" where
  "date_add_day dt =
     (if d_year (next_day dt) > MAXYEAR then Inl OverflowError else Inr (next_day dt))"

definition date_less :: "py_date \<Rightarrow> py_date \<Rightarrow> bool" where
  "date_less a b =
     (d_year a < d_year b
      \<or> (d_year a = d_year b
          \<and> (d_month a < d_month b \<or> (d_month a = d_month b \<and> d_day a < d_day b))))"

text \<open>
  The day number of a date, as \<^verbatim>\<open>date.toordinal()\<close> computes it: 0001-01-01 is day 1.
  It is used to state what a calendar walk is, not by the parsers.
\<close>

definition days_before_year :: "int \<Rightarrow> int" where
  "days_before_year y = (y - 1) * 365 + (y - 1) div 4 - (y - 1) div 100 + (y - 1) div 400"

fun days_before_month :: "int \<Rightarrow> nat \<Rightarrow> int" where
  "days_before_month y 0 = 0"
| "days_before_month y (Suc k) =
     (if k = 0 then 0 else days_before_month y k + days_in_month y (int k))"

definition toordinal :: "py_date \<Rightarrow> int" where
  "toordinal dt =
     days_before_year (d_year dt) + days_before_month (d_year dt) (nat (d_month dt)) + d_day dt"

section \<open>The simple start/end date range\<close>

text \<open>
  The list comprehension \<^verbatim>\<open>[int(val) for val in s.split('-')]\<close> and its unpacking into
  two or three names; a wrong number of parts raises \<^verbatim>\<open>ValueError\<close>.
\<close>

fun int_list :: "string list \<Rightarrow> py_error + int list" where
  "int_list [] = Inr []"
| "int_list (s # ss) =
     (case py_int s of
        Inl e \<Rightarrow> Inl e
      | Inr i \<Rightarrow> (case int_list ss of Inl e \<Rightarrow> Inl e | Inr js \<Rightarrow> Inr (i # js)))"

definition int_fields :: "string \<Rightarrow> py_error + int list" where
  "int_fields s = int_list (split_chr CHR ''-'' s)"

definition unpack2 :: "string \<Rightarrow> py_error + (int \<times> int)" where
  "unpack2 s =
     (case int_fields s of
        Inl e \<Rightarrow> Inl e
      | Inr [a, b] \<Rightarrow> Inr (a, b)
      | Inr _ \<Rightarrow> Inl (ValueError UnpackMismatch))"

definition unpack3 :: "string \<Rightarrow> py_error + (int \<times> int \<times> int)" where
  "unpack3 s =
     (case int_fields s of
        Inl e \<Rightarrow> Inl e
      | Inr [a, b, c] \<Rightarrow> Inr (a, b, c)
      | Inr _ \<Rightarrow> Inl (ValueError UnpackMismatch))"

text \<open>The annual branch of \<^verbatim>\<open>_parseSimpleDateRange\<close>.\<close>

definition annual_dates :: "string \<Rightarrow> string \<Rightarrow> py_error + RequestDate list" where
  "annual_dates date_start date_end =
     (case py_int date_start of
        Inl e \<Rightarrow> Inl e
      | Inr start \<Rightarrow>
          (case py_int date_end of
             Inl e \<Rightarrow> Inl e
           | Inr e0 \<Rightarrow>
               (let end = e0 + 1 in
                if end \<le> start then Inl (ValueError EndPrecedesStart)
                else Inr (map (\<lambda>y. RequestDate y None None) (range_up start end 1)))))"

text \<open>
  The monthly branch. The loop keeps \<^verbatim>\<open>cur_y\<close>, \<^verbatim>\<open>cur_m\<close>, \<^verbatim>\<open>m_cnt\<close> and the list built so
  far; \<^verbatim>\<open>//\<close> and \<^verbatim>\<open>%\<close> on a non-negative count are \<open>div\<close> and \<open>mod\<close>.
\<close>

function monthly_loop ::
  "int \<Rightarrow> int \<Rightarrow> int \<Rightarrow> int \<Rightarrow> int \<Rightarrow> int \<Rightarrow> RequestDate list \<Rightarrow> RequestDate list" where
  "monthly_loop start_y end_y end_m cur_y cur_m m_cnt dates =
     (if cur_y * 12 + cur_m \<le> end_y * 12 + end_m then
        monthly_loop start_y end_y end_m
          (start_y + (m_cnt + 1) div 12) ((m_cnt + 1) mod 12 + 1) (m_cnt + 1)
          (dates @ [RequestDate cur_y (Some cur_m) None])
      else dates)"
  by pat_completeness auto
termination
proof (relation "measure (\<lambda>(start_y, end_y, end_m, cur_y, cur_m, m_cnt, dates).
    if cur_y * 12 + cur_m = start_y * 12 + m_cnt + 1
    then nat (end_y * 12 + end_m - start_y * 12 - m_cnt)
    else nat (end_y * 12 + end_m - start_y * 12 - (m_cnt + 1)) + 1)", goal_cases)
  case 1
  show ?case by simp
next
  case (2 start_y end_y end_m cur_y cur_m m_cnt dates)
  have eq: "(start_y + (m_cnt + 1) div 12) * 12 + ((m_cnt + 1) mod 12 + 1)
            = start_y * 12 + (m_cnt + 1) + 1"
    by (simp add: algebra_simps)
  show ?case
  proof (cases "cur_y * 12 + cur_m = start_y * 12 + m_cnt + 1")
    case True
    with 2 eq show ?thesis by simp
  next
    case False
    with 2 eq show ?thesis by simp
  qed
qed

text \<open>The request date that the loop appends when its month count is \<open>j\<close>.\<close>

definition month_of_count :: "int \<Rightarrow> int \<Rightarrow> RequestDate" where
  "month_of_count start_y j = RequestDate (start_y + j div 12) (Some (j mod 12 + 1)) None"

definition monthly_dates :: "string \<Rightarrow> string \<Rightarrow> py_error + RequestDate list" where
  "monthly_dates date_start date_end =
     (case unpack2 date_start of
        Inl e \<Rightarrow> Inl e
      | Inr (start_y, start_m) \<Rightarrow>
          (case unpack2 date_end of
             Inl e \<Rightarrow> Inl e
           | Inr (end_y, end_m) \<Rightarrow>
               if start_m < 1 \<or> start_m > 12 then Inl (ValueError (InvalidMonth start_m))
               else if end_m < 1 \<or> end_m > 12 then Inl (ValueError (InvalidMonth end_m))
               else if end_y * 12 + end_m < start_y * 12 + start_m
                 then Inl (ValueError EndPrecedesStart)
               else Inr (monthly_loop start_y end_y end_m start_y start_m (start_m - 1) [])))"

text \<open>
  The daily branch. The loop runs while \<^verbatim>\<open>inc_date != end_date\<close>; every step adds one
  day, which raises once the last representable day is passed, so the loop ends for
  every pair of dates.
\<close>

function daily_loop ::
  "py_date \<Rightarrow> py_date \<Rightarrow> RequestDate list \<Rightarrow> py_error + RequestDate list" where
  "daily_loop inc_date end_date dates =
     (if inc_date \<noteq> end_date then
        (case date_add_day inc_date of
           Inl e \<Rightarrow> Inl e
         | Inr nxt \<Rightarrow>
             daily_loop nxt end_date
               (dates @ [RequestDate (d_year inc_date) (Some (d_month inc_date))
                           (Some (d_day inc_date))]))
      else Inr dates)"
  by pat_completeness auto
termination
proof (relation "measures [\<lambda>(c, e, ds). nat (MAXYEAR + 1 - d_year c),
                           \<lambda>(c, e, ds). nat (12 - d_month c),
                           \<lambda>(c, e, ds). nat (31 - d_day c)]", goal_cases)
  case 1
  show ?case by simp
next
  case (2 inc_date end_date dates nxt)
  then have nxt: "nxt = next_day inc_date" and yr: "d_year (next_day inc_date) \<le> MAXYEAR"
    by (auto simp: date_add_day_def split: if_splits)
  have dim: "days_in_month (d_year inc_date) (d_month inc_date) \<le> 31"
    by (simp add: days_in_month_def)
  show ?case
    using yr dim unfolding nxt
    by (cases inc_date) (auto simp: next_day_def MAXYEAR_def split: if_splits)
qed

definition daily_dates :: "string \<Rightarrow> string \<Rightarrow> py_error + RequestDate list" where
  "daily_dates date_start date_end =
     (case unpack3 date_start of
        Inl e \<Rightarrow> Inl e
      | Inr (start_y, start_m, start_d) \<Rightarrow>
          (case unpack3 date_end of
             Inl e \<Rightarrow> Inl e
           | Inr (end_y, end_m, end_d) \<Rightarrow>
               (case dt_date start_y start_m start_d of
                  Inl e \<Rightarrow> Inl e
                | Inr inc_date \<Rightarrow>
                    (case dt_date end_y end_m end_d of
                       Inl e \<Rightarrow> Inl e
                     | Inr end_date \<Rightarrow>
                         if date_less end_date inc_date then Inl (ValueError EndPrecedesStart)
                         else
                           (case date_add_day end_date of
                              Inl e \<Rightarrow> Inl e
                            | Inr end_date' \<Rightarrow> daily_loop inc_date end_date' [])))))"

text \<open>\<^verbatim>\<open>DataRequest._parseSimpleDateRange(date_start, date_end)\<close>.\<close>

definition parseSimpleDateRange ::
  "string option \<Rightarrow> string option \<Rightarrow> py_error + (RequestDate list \<times> int)" where
  "parseSimpleDateRange date_start0 date_end0 =
     (let date_start = (case date_start0 of None \<Rightarrow> [] | Some s \<Rightarrow> s);
          date_end = (case date_end0 of None \<Rightarrow> [] | Some s \<Rightarrow> s)
      in
      if date_start = [] \<or> date_end = [] then Inl (ValueError StartEndRequired)
      else if length date_start = 4 \<and> length date_end = 4 then
        (case annual_dates date_start date_end of
           Inl e \<Rightarrow> Inl e | Inr dates \<Rightarrow> Inr (dates, ANNUAL))
      else if length date_start = 7 \<and> length date_end = 7 then
        (case monthly_dates date_start date_end of
           Inl e \<Rightarrow> Inl e | Inr dates \<Rightarrow> Inr (dates, MONTHLY))
      else if length date_start = 10 \<and> length date_end = 10 then
        (case daily_dates date_start date_end of
           Inl e \<Rightarrow> Inl e | Inr dates \<Rightarrow> Inr (dates, DAILY))
      else Inl (ValueError MismatchedGranularity))"

section \<open>The year/month/day path and \<^verbatim>\<open>_parseDates\<close>\<close>

text \<open>
  \<^verbatim>\<open>DataRequest._parseYMD(years, months, days)\<close>. With \<^verbatim>\<open>years\<close> given, the first
  statement after the \<^verbatim>\<open>print\<close> evaluates \<^verbatim>\<open>self._parseDateRange\<close>; the class defines
  \<^verbatim>\<open>__init__\<close>, \<^verbatim>\<open>_getMetadata\<close>, \<^verbatim>\<open>_verifyGrains\<close>, \<^verbatim>\<open>_parseSimpleDateRange\<close>,
  \<^verbatim>\<open>_parseRangeStr\<close>, \<^verbatim>\<open>_parseYMD\<close> and \<^verbatim>\<open>_parseDates\<close>, and the instance has no such
  attribute, so the lookup raises \<^verbatim>\<open>AttributeError\<close> and nothing after it runs. Without
  \<^verbatim>\<open>years\<close> the method binds a local \<^verbatim>\<open>date_grain\<close> and falls off its end: it returns
  \<^verbatim>\<open>None\<close>, modelled by the unit value.
\<close>

definition parseYMD ::
  "string option \<Rightarrow> string option \<Rightarrow> string option \<Rightarrow> py_error + unit" where
  "parseYMD years months days =
     (case years of
        Some y \<Rightarrow> Inl (AttributeError ''_parseDateRange'')
      | None \<Rightarrow> Inr ())"

text \<open>
  \<^verbatim>\<open>DataRequest._parseDates\<close>. On the year/month/day path the result of \<^verbatim>\<open>_parseYMD\<close>
  is unpacked into two names; unpacking \<^verbatim>\<open>None\<close> raises \<^verbatim>\<open>TypeError\<close>.
\<close>

definition absent :: "string option \<Rightarrow> bool" where
  "absent param = (param = None \<or> param = Some [])"

definition parseDates ::
  "string option \<Rightarrow> string option \<Rightarrow> string option \<Rightarrow> string option \<Rightarrow> string option
   \<Rightarrow> py_error + (RequestDate list \<times> int)" where
  "parseDates date_start date_end years months days =
     (if absent date_start \<and> absent date_end \<and> absent years \<and> absent months \<and> absent days
        then Inr ([], NONE)
      else if date_start \<noteq> None \<or> date_end \<noteq> None
        then parseSimpleDateRange date_start date_end
      else
        (case parseYMD years months days of
           Inl e \<Rightarrow> Inl e
         | Inr u \<Rightarrow> Inl TypeError))"

text \<open>
  Chronological order of request dates of one grain: by year, then month, then day,
  an absent month or day counting as 0.
\<close>

definition month_num :: "RequestDate \<Rightarrow> int" where
  "month_num r = (case month r of None \<Rightarrow> 0 | Some m \<Rightarrow> m)"

definition day_num :: "RequestDate \<Rightarrow> int" where
  "day_num r = (case day r of None \<Rightarrow> 0 | Some d \<Rightarrow> d)"

definition chron_less :: "RequestDate \<Rightarrow> RequestDate \<Rightarrow> bool" where
  "chron_less a b =
     (year a < year b
      \<or> (year a = year b
          \<and> (month_num a < month_num b
              \<or> (month_num a = month_num b \<and> day_num a < day_num b))))"

definition request_date :: "py_date \<Rightarrow> RequestDate" where
  "request_date dt = RequestDate (d_year dt) (Some (d_month dt)) (Some (d_day dt))"

section \<open>The earlier date parser (\<^verbatim>\<open>data_request.py\<close>)\<close>

text \<open>The grain constants of that module differ from the current ones.\<close>

definition legacy_ANNUAL :: int where "legacy_ANNUAL = 0"
definition legacy_MONTHLY :: int where "legacy_MONTHLY = 1"
definition legacy_DAILY :: int where "legacy_DAILY = 2"

subsection \<open>Dictionaries in insertion order\<close>

text \<open>
  A Python \<^verbatim>\<open>dict\<close> iterates in insertion order, so it is a list of key/value pairs:
  \<^verbatim>\<open>k in d\<close>, \<^verbatim>\<open>d[k] = v\<close> (an existing key keeps its place, a new one goes last) and
  the in-place change of the value stored under a key.
\<close>

fun dict_has :: "'k \<Rightarrow> ('k \<times> 'v) list \<Rightarrow> bool" where
  "dict_has k [] = False"
| "dict_has k ((k', v) # d) = (k = k' \<or> dict_has k d)"

fun dict_set :: "'k \<Rightarrow> 'v \<Rightarrow> ('k \<times> 'v) list \<Rightarrow> ('k \<times> 'v) list" where
  "dict_set k v [] = [(k, v)]"
| "dict_set k v ((k', v') # d) =
     (if k = k' then (k, v) # d else (k', v') # dict_set k v d)"

fun dict_modify :: "'k \<Rightarrow> ('v \<Rightarrow> 'v) \<Rightarrow> ('k \<times> 'v) list \<Rightarrow> ('k \<times> 'v) list" where
  "dict_modify k f [] = []"
| "dict_modify k f ((k', v) # d) =
     (if k = k' then (k', f v) # d else (k', v) # dict_modify k f d)"

text \<open>The nested structure year \<open>\<rightarrow>\<close> month \<open>\<rightarrow>\<close> list of days.\<close>

type_synonym month_dict = "(int \<times> int list) list"
type_synonym date_tree = "(int \<times> month_dict) list"

text \<open>\<^verbatim>\<open>dates[y]\<close> where the year is known to be a key; the sources read it only then.\<close>

definition months_of :: "int \<Rightarrow> date_tree \<Rightarrow> month_dict" where
  "months_of y dates = (case map_of dates y of None \<Rightarrow> [] | Some ms \<Rightarrow> ms)"

subsection \<open>The three branches\<close>

text \<open>Annual: \<^verbatim>\<open>for year in range(start, end): dates[year] = {}\<close>.\<close>

definition legacy_annual :: "string \<Rightarrow> string \<Rightarrow> py_error + date_tree" where
  "legacy_annual date_start date_end =
     (case py_int date_start of
        Inl e \<Rightarrow> Inl e
      | Inr start \<Rightarrow>
          (case py_int date_end of
             Inl e \<Rightarrow> Inl e
           | Inr e0 \<Rightarrow>
               (let end = e0 + 1 in
                if end \<le> start then Inl (ValueError EndPrecedesStart)
                else Inr (fold (\<lambda>year dates. dict_set year [] dates) (range_up start end 1) []))))"

text \<open>Monthly: the body of the loop, then the loop.\<close>

definition add_month :: "int \<Rightarrow> int \<Rightarrow> date_tree \<Rightarrow> date_tree" where
  "add_month cur_y cur_m dates =
     (let dates1 = (if \<not> dict_has cur_y dates then dict_set cur_y [] dates else dates)
      in dict_modify cur_y (dict_set cur_m []) dates1)"

function legacy_monthly_loop ::
  "int \<Rightarrow> int \<Rightarrow> int \<Rightarrow> int \<Rightarrow> int \<Rightarrow> int \<Rightarrow> date_tree \<Rightarrow> date_tree" where
  "legacy_monthly_loop start_y end_y end_m cur_y cur_m m_cnt dates =
     (if cur_y * 12 + cur_m \<le> end_y * 12 + end_m then
        legacy_monthly_loop start_y end_y end_m
          (start_y + (m_cnt + 1) div 12) ((m_cnt + 1) mod 12 + 1) (m_cnt + 1)
          (add_month cur_y cur_m dates)
      else dates)"
  by pat_completeness auto
termination
proof (relation "measure (\<lambda>(start_y, end_y, end_m, cur_y, cur_m, m_cnt, dates).
    if cur_y * 12 + cur_m = start_y * 12 + m_cnt + 1
    then nat (end_y * 12 + end_m - start_y * 12 - m_cnt)
    else nat (end_y * 12 + end_m - start_y * 12 - (m_cnt + 1)) + 1)", goal_cases)
  case 1
  show ?case by simp
next
  case (2 start_y end_y end_m cur_y cur_m m_cnt dates)
  have eq: "(start_y + (m_cnt + 1) div 12) * 12 + ((m_cnt + 1) mod 12 + 1)
            = start_y * 12 + (m_cnt + 1) + 1"
    by (simp add: algebra_simps)
  show ?case
  proof (cases "cur_y * 12 + cur_m = start_y * 12 + m_cnt + 1")
    case True
    with 2 eq show ?thesis by simp
  next
    case False
    with 2 eq show ?thesis by simp
  qed
qed

definition legacy_monthly :: "string \<Rightarrow> string \<Rightarrow> py_error + date_tree" where
  "legacy_monthly date_start date_end =
     (case unpack2 date_start of
        Inl e \<Rightarrow> Inl e
      | Inr (start_y, start_m) \<Rightarrow>
          (case unpack2 date_end of
             Inl e \<Rightarrow> Inl e
           | Inr (end_y, end_m) \<Rightarrow>
               if start_m < 1 \<or> start_m > 12 then Inl (ValueError (InvalidMonth start_m))
               else if end_m < 1 \<or> end_m > 12 then Inl (ValueError (InvalidMonth end_m))
               else if end_y * 12 + end_m < start_y * 12 + start_m
                 then Inl (ValueError EndPrecedesStart)
               else Inr (legacy_monthly_loop start_y end_y end_m start_y start_m
                           (start_m - 1) [])))"

text \<open>Daily: the body of the loop, then the loop.\<close>

definition add_day :: "py_date \<Rightarrow> date_tree \<Rightarrow> date_tree" where
  "add_day inc_date dates =
     (let dates1 = (if \<not> dict_has (d_year inc_date) dates
                    then dict_set (d_year inc_date) [] dates else dates);
          dates2 = (if \<not> dict_has (d_month inc_date) (months_of (d_year inc_date) dates1)
                    then dict_modify (d_year inc_date) (dict_set (d_month inc_date) []) dates1
                    else dates1)
      in dict_modify (d_year inc_date)
           (dict_modify (d_month inc_date) (\<lambda>ds. ds @ [d_day inc_date])) dates2)"

function legacy_daily_loop :: "py_date \<Rightarrow> py_date \<Rightarrow> date_tree \<Rightarrow> py_error + date_tree" where
  "legacy_daily_loop inc_date end_date dates =
     (if inc_date \<noteq> end_date then
        (case date_add_day inc_date of
           Inl e \<Rightarrow> Inl e
         | Inr nxt \<Rightarrow> legacy_daily_loop nxt end_date (add_day inc_date dates))
      else Inr dates)"
  by pat_completeness auto
termination
proof (relation "measures [\<lambda>(c, e, ds). nat (MAXYEAR + 1 - d_year c),
                           \<lambda>(c, e, ds). nat (12 - d_month c),
                           \<lambda>(c, e, ds). nat (31 - d_day c)]", goal_cases)
  case 1
  show ?case by simp
next
  case (2 inc_date end_date dates nxt)
  then have nxt: "nxt = next_day inc_date" and yr: "d_year (next_day inc_date) \<le> MAXYEAR"
    by (auto simp: date_add_day_def split: if_splits)
  have dim: "days_in_month (d_year inc_date) (d_month inc_date) \<le> 31"
    by (simp add: days_in_month_def)
  show ?case
    using yr dim unfolding nxt
    by (cases inc_date) (auto simp: next_day_def MAXYEAR_def split: if_splits)
qed

definition legacy_daily :: "string \<Rightarrow> string \<Rightarrow> py_error + date_tree" where
  "legacy_daily date_start date_end =
     (case unpack3 date_start of
        Inl e \<Rightarrow> Inl e
      | Inr (start_y, start_m, start_d) \<Rightarrow>
          (case unpack3 date_end of
             Inl e \<Rightarrow> Inl e
           | Inr (end_y, end_m, end_d) \<Rightarrow>
               (case dt_date start_y start_m start_d of
                  Inl e \<Rightarrow> Inl e
                | Inr inc_date \<Rightarrow>
                    (case dt_date end_y end_m end_d of
                       Inl e \<Rightarrow> Inl e
                     | Inr end_date \<Rightarrow>
                         if date_less end_date inc_date then Inl (ValueError EndPrecedesStart)
                         else
                           (case date_add_day end_date of
                              Inl e \<Rightarrow> Inl e
                            | Inr end_date' \<Rightarrow> legacy_daily_loop inc_date end_date' [])))))"

text \<open>\<^verbatim>\<open>DataRequest._parse_dates(date_start, date_end)\<close> of \<^verbatim>\<open>data_request.py\<close>.\<close>

definition legacy_parse_dates :: "string \<Rightarrow> string \<Rightarrow> py_error + (date_tree \<times> int)" where
  "legacy_parse_dates date_start date_end =
     (if length date_start = 4 \<and> length date_end = 4 then
        (case legacy_annual date_start date_end of
           Inl e \<Rightarrow> Inl e | Inr dates \<Rightarrow> Inr (dates, legacy_ANNUAL))
      else if length date_start = 7 \<and> length date_end = 7 then
        (case legacy_monthly date_start date_end of
           Inl e \<Rightarrow> Inl e | Inr dates \<Rightarrow> Inr (dates, legacy_MONTHLY))
      else if length date_start = 10 \<and> length date_end = 10 then
        (case legacy_daily date_start date_end of
           Inl e \<Rightarrow> Inl e | Inr dates \<Rightarrow> Inr (dates, legacy_DAILY))
      else Inl (ValueError MismatchedGranularity))"

subsection \<open>Reading the nested structure as a sequence of dates\<close>

text \<open>
  The nested structure flattened in insertion order: a year without months is an
  annual date, a month without days a monthly date, and every listed day a daily date.
\<close>

definition flatten_month :: "int \<Rightarrow> int \<times> int list \<Rightarrow> RequestDate list" where
  "flatten_month y md =
     (if snd md = [] then [RequestDate y (Some (fst md)) None]
      else map (\<lambda>d. RequestDate y (Some (fst md)) (Some d)) (snd md))"

definition flatten_year :: "int \<times> month_dict \<Rightarrow> RequestDate list" where
  "flatten_year ym =
     (if snd ym = [] then [RequestDate (fst ym) None None]
      else concat (map (flatten_month (fst ym)) (snd ym)))"

definition flatten_dates :: "date_tree \<Rightarrow> RequestDate list" where
  "flatten_dates dates = concat (map flatten_year dates)"

text \<open>
  Shapes of the nested structure while it is filled in chronological order, used to
  relate it to the flat list: the entry filled last is the last of its dictionary,
  every other key is smaller, and the next date to add is not earlier.
\<close>

definition month_tree :: "date_tree \<Rightarrow> int \<Rightarrow> int \<Rightarrow> bool" where
  "month_tree dates y m =
     (dates = [] \<or>
      (\<exists>A y0 B m0. dates = A @ [(y0, B @ [(m0, [])])]
         \<and> (\<forall>k \<in> fst ` set A. k < y0) \<and> (\<forall>k \<in> fst ` set B. k < m0)
         \<and> (y0 < y \<or> (y0 = y \<and> m0 < m))))"

definition day_tree :: "date_tree \<Rightarrow> int \<Rightarrow> int \<Rightarrow> bool" where
  "day_tree dates y m =
     (dates = [] \<or>
      (\<exists>A y0 B m0 ds. dates = A @ [(y0, B @ [(m0, ds)])] \<and> ds \<noteq> []
         \<and> (\<forall>k \<in> fst ` set A. k < y0) \<and> (\<forall>k \<in> fst ` set B. k < m0)
         \<and> (y0 < y \<or> (y0 = y \<and> m0 \<le> m))))"

fun day_chain :: "py_date \<Rightarrow> py_date list \<Rightarrow> bool" where
  "day_chain c [] = True"
| "day_chain c (d # ds) = (d = c \<and> day_chain (next_day c) ds)"

section \<open>The data request (\<^verbatim>\<open>api_core/data_request.py\<close>)\<close>

subsection \<open>Constants\<close>

definition REQ_RASTER :: int where "REQ_RASTER = 0"
definition REQ_POINT :: int where "REQ_POINT = 1"

definition RESAMPLE_METHODS :: "string list" where
  "RESAMPLE_METHODS =
     [''nearest'', ''bilinear'', ''cubic'', ''cubic-spline'', ''lanczos'', ''average'', ''mode'']"

definition POINT_METHODS :: "string list" where
  "POINT_METHODS = [''nearest'', ''linear'']"

definition GRAIN_METHODS :: "string list" where
  "GRAIN_METHODS = [''strict'', ''skip'', ''coarser'', ''finer'', ''any'']"

definition GRID_OUTPUT :: "string list" where
  "GRID_OUTPUT = [''geotiff'', ''netcdf'']"

definition POINT_OUTPUT :: "string list" where
  "POINT_OUTPUT = [''csv'', ''shapefile'', ''netcdf'']"

definition FILE_EXT :: "string \<rightharpoonup> string" where
  "FILE_EXT = map_of
     [(''geotiff'', ''.tif''), (''netcdf'', ''.nc''), (''csv'', ''.csv''), (''shapefile'', ''.shp'')]"

subsection \<open>Collaborators\<close>

text \<open>
  The subset geometry is only inspected by \<^verbatim>\<open>isinstance(subset_geom, SubsetMultiPoint)\<close>,
  so its class is all that is kept. The dataset catalog is taken as a parameter: a
  partial map from dataset ids to entries with the attributes that the request reads
  (\<^verbatim>\<open>nontemporal\<close>, \<^verbatim>\<open>supported_grains\<close>, and the result of \<^verbatim>\<open>getMetadata()\<close>, kept
  opaque); subscripting it with an unknown id raises \<^verbatim>\<open>KeyError\<close>. The target CRS and
  resolution are opaque values.
\<close>

datatype subset_geometry = SubsetPolygon | SubsetMultiPoint

record 'm dataset =
  nontemporal :: bool
  supported_grains :: "int list"
  ds_info :: 'm

type_synonym 'm catalog = "string \<rightharpoonup> 'm dataset"

type_synonym dsvars_map = "(string \<times> string list) list"

subsection \<open>Metadata\<close>

datatype ('crs, 'res) md_value =
    MdText string
  | MdDateRange "string option" "string option"
  | MdCRS 'crs
  | MdResolution 'res

record ('crs, 'res, 'm) request_metadata =
  md_request :: "(string \<times> ('crs, 'res) md_value) list"
  md_datasets :: "('m \<times> string list) list"

text \<open>
  \<^verbatim>\<open>_getMetadata\<close>: the request part is a dictionary, filled in the order of the source;
  the descriptor that \<^verbatim>\<open>getCRSMetadata\<close> computes from the target CRS is kept as the CRS
  itself. The dataset part is built by a loop over the requested datasets, which looks
  each one up in the catalog.
\<close>

fun dataset_metadata :: "'m catalog \<Rightarrow> dsvars_map \<Rightarrow> py_error + ('m \<times> string list) list" where
  "dataset_metadata dsc [] = Inr []"
| "dataset_metadata dsc ((dsid, vars) # rest) =
     (case dsc dsid of
        None \<Rightarrow> Inl (KeyError dsid)
      | Some ds \<Rightarrow>
          (case dataset_metadata dsc rest of
             Inl e \<Rightarrow> Inl e
           | Inr mds \<Rightarrow> Inr ((ds_info ds, vars) # mds)))"

definition getMetadata ::
  "'m catalog \<Rightarrow> dsvars_map \<Rightarrow> string option \<Rightarrow> string option \<Rightarrow> 'crs \<Rightarrow> 'res
   \<Rightarrow> int \<Rightarrow> string \<Rightarrow> (string \<times> ('crs, 'res) md_value) list
   \<Rightarrow> py_error + ('crs, 'res, 'm) request_metadata" where
  "getMetadata dsc dsvars date_start_raw date_end_raw target_crs target_resolution
     request_type ri_method req_vals =
     (let req_md0 = fold (\<lambda>(k, v). dict_set k v) req_vals [];
          req_md1 = dict_set ''target_date_range'' (MdDateRange date_start_raw date_end_raw) req_md0;
          req_md2 = dict_set ''target_crs'' (MdCRS target_crs) req_md1;
          req_md3 =
            (if request_type = REQ_RASTER then
               dict_set ''resample_method'' (MdText ri_method)
                 (dict_set ''target_resolution'' (MdResolution target_resolution)
                    (dict_set ''request_type'' (MdText ''raster'') req_md2))
             else if request_type = REQ_POINT then
               dict_set ''interpolation_method'' (MdText ri_method)
                 (dict_set ''request_type'' (MdText ''points'') req_md2)
             else req_md2)
      in case dataset_metadata dsc dsvars of
           Inl e \<Rightarrow> Inl e
         | Inr ds_md \<Rightarrow> Inr \<lparr>md_request = req_md3, md_datasets = ds_md\<rparr>)"

subsection \<open>Grain check\<close>

text \<open>The loop of \<^verbatim>\<open>_verifyGrains\<close>, and the method itself.\<close>

fun verify_datasets :: "'m catalog \<Rightarrow> int \<Rightarrow> dsvars_map \<Rightarrow> py_error + unit" where
  "verify_datasets dsc date_grain [] = Inr ()"
| "verify_datasets dsc date_grain ((dsid, vars) # rest) =
     (case dsc dsid of
        None \<Rightarrow> Inl (KeyError dsid)
      | Some ds \<Rightarrow>
          if \<not> nontemporal ds \<and> date_grain \<notin> set (supported_grains ds)
            then Inl (ValueError (NoRequestedGranularity dsid))
          else verify_datasets dsc date_grain rest)"

definition verifyGrains :: "'m catalog \<Rightarrow> dsvars_map \<Rightarrow> string \<Rightarrow> int \<Rightarrow> py_error + unit" where
  "verifyGrains dsc dsvars grain_method date_grain =
     (if grain_method = ''strict'' then verify_datasets dsc date_grain dsvars else Inr ())"

text \<open>A dataset of the catalog that is temporal and does not support a grain.\<close>

definition lacks_grain :: "'m catalog \<Rightarrow> int \<Rightarrow> string \<Rightarrow> bool" where
  "lacks_grain dsc date_grain dsid =
     (case dsc dsid of
        None \<Rightarrow> False
      | Some ds \<Rightarrow> \<not> nontemporal ds \<and> date_grain \<notin> set (supported_grains ds))"

subsection \<open>Construction\<close>

text \<open>The attributes that \<^verbatim>\<open>__init__\<close> sets on \<^verbatim>\<open>self\<close>.\<close>

record ('crs, 'res, 'm) DataRequest =
  self_dsvars :: dsvars_map
  self_date_start_raw :: "string option"
  self_date_end_raw :: "string option"
  self_dates :: "RequestDate list"
  self_date_grain :: int
  self_subset_geom :: "subset_geometry option"
  self_target_crs :: 'crs
  self_target_resolution :: 'res
  self_request_type :: int
  self_ri_method :: string
  self_metadata :: "('crs, 'res, 'm) request_metadata"
  self_grain_method :: string
  self_file_extension :: string

text \<open>The values that \<^verbatim>\<open>__init__\<close> puts in place of an absent argument.\<close>

definition method_or_default :: "string option \<Rightarrow> string" where
  "method_or_default ri_method = (case ri_method of None \<Rightarrow> ''nearest'' | Some m \<Rightarrow> m)"

definition grain_method_or_default :: "string option \<Rightarrow> string" where
  "grain_method_or_default grain_method =
     (case grain_method of None \<Rightarrow> ''strict'' | Some g \<Rightarrow> g)"

definition format_or_default :: "int \<Rightarrow> string option \<Rightarrow> string" where
  "format_or_default request_type output_format =
     (case output_format of
        None \<Rightarrow> (if request_type = REQ_RASTER then ''geotiff'' else ''csv'')
      | Some f \<Rightarrow> f)"

text \<open>
  The last part of \<^verbatim>\<open>__init__\<close>: the output format and the file extension looked up in
  \<^verbatim>\<open>FILE_EXT\<close>.
\<close>

definition extension_for :: "int \<Rightarrow> string option \<Rightarrow> py_error + string" where
  "extension_for request_type output_format0 =
     (let output_format = format_or_default request_type output_format0 in
      if request_type = REQ_RASTER \<and> output_format \<notin> set GRID_OUTPUT
        then Inl (ValueError (InvalidOutputFormat output_format))
      else if request_type = REQ_POINT \<and> output_format \<notin> set POINT_OUTPUT
        then Inl (ValueError (InvalidOutputFormat output_format))
      else (case FILE_EXT output_format of
              None \<Rightarrow> Inl (KeyError output_format)
            | Some ext \<Rightarrow> Inr ext))"

text \<open>\<^verbatim>\<open>DataRequest.__init__\<close>, with the arguments in the order of the source.\<close>

definition DataRequest_init ::
  "'m catalog \<Rightarrow> dsvars_map \<Rightarrow> string option \<Rightarrow> string option
   \<Rightarrow> string option \<Rightarrow> string option \<Rightarrow> string option \<Rightarrow> string option
   \<Rightarrow> subset_geometry option \<Rightarrow> 'crs \<Rightarrow> 'res \<Rightarrow> string option \<Rightarrow> int \<Rightarrow> string option
   \<Rightarrow> (string \<times> ('crs, 'res) md_value) list
   \<Rightarrow> py_error + ('crs, 'res, 'm) DataRequest" where
  "DataRequest_init dataset_catalog dsvars0 date_start date_end years months days grain_method0
     subset_geom0 target_crs0 target_resolution0 ri_method0 request_type0 output_format
     req_metadata =
     (case parseDates date_start date_end years months days of
        Inl e \<Rightarrow> Inl e
      | Inr (dates0, date_grain0) \<Rightarrow>
          if request_type0 \<noteq> REQ_RASTER \<and> request_type0 \<noteq> REQ_POINT
            then Inl (ValueError InvalidRequestType)
          else
            (let ri_method1 = method_or_default ri_method0 in
             if request_type0 = REQ_RASTER \<and> ri_method1 \<notin> set RESAMPLE_METHODS
               then Inl (ValueError (InvalidResamplingMethod ri_method1))
             else if request_type0 = REQ_POINT \<and> ri_method1 \<notin> set POINT_METHODS
               then Inl (ValueError (InvalidPointMethod ri_method1))
             else if request_type0 = REQ_POINT \<and> subset_geom0 \<noteq> Some SubsetMultiPoint
               then Inl (ValueError NoPointsProvided)
             else
               (case getMetadata dataset_catalog dsvars0 date_start date_end target_crs0
                       target_resolution0 request_type0 ri_method1 req_metadata of
                  Inl e \<Rightarrow> Inl e
                | Inr md \<Rightarrow>
                    (let grain_method1 = grain_method_or_default grain_method0 in
                     if grain_method1 \<notin> set GRAIN_METHODS
                       then Inl (ValueError (InvalidGrainMethod grain_method1))
                     else
                       (case verifyGrains dataset_catalog dsvars0 grain_method1 date_grain0 of
                          Inl e \<Rightarrow> Inl e
                        | Inr u \<Rightarrow>
                            (case extension_for request_type0 output_format of
                               Inl e \<Rightarrow> Inl e
                             | Inr ext \<Rightarrow>
                                 Inr \<lparr>self_dsvars = dsvars0,
                                      self_date_start_raw = date_start,
                                      self_date_end_raw = date_end,
                                      self_dates = dates0,
                                      self_date_grain = date_grain0,
                                      self_subset_geom = subset_geom0,
                                      self_target_crs = target_crs0,
                                      self_target_resolution = target_resolution0,
                                      self_request_type = request_type0,
                                      self_ri_method = ri_method1,
                                      self_metadata = md,
                                      self_grain_method = grain_method1,
                                      self_file_extension = ext\<rparr>))))))"

text \<open>A small catalog for the examples: two temporal datasets and one without time.\<close>

definition example_catalog :: "unit catalog" where
  "example_catalog =
     [''prism'' \<mapsto> \<lparr>nontemporal = False, supported_grains = [ANNUAL, MONTHLY, DAILY], ds_info = ()\<rparr>,
      ''modis'' \<mapsto> \<lparr>nontemporal = False, supported_grains = [DAILY], ds_info = ()\<rparr>,
      ''dem'' \<mapsto> \<lparr>nontemporal = True, supported_grains = [], ds_info = ()\<rparr>]"

section \<open>Output file names (\<^verbatim>\<open>api_core/data_request_output.py\<close>)\<close>

subsection \<open>Names in scope\<close>

text \<open>
  A name that a function body reads and does not bind is looked up in the globals of
  its module, and raises \<^verbatim>\<open>NameError\<close> when it is bound neither there nor among the
  built-ins. The module binds \<^verbatim>\<open>random\<close>, \<^verbatim>\<open>zipfile\<close>, \<^verbatim>\<open>json\<close>, \<^verbatim>\<open>dr\<close> (the module
  \<^verbatim>\<open>api_core.data_request\<close>), \<^verbatim>\<open>Path\<close>, \<^verbatim>\<open>xr\<close>, \<^verbatim>\<open>fname_chars\<close> and the class
  \<^verbatim>\<open>DataRequestOutput\<close>; it binds none of the grain constants, which live in \<^verbatim>\<open>dr\<close>.
\<close>

datatype pyval = IntV int | StrV string | ObjV

type_synonym globals = "string \<rightharpoonup> pyval"

definition output_module_globals :: globals where
  "output_module_globals = map_of
     [(''random'', ObjV), (''zipfile'', ObjV), (''json'', ObjV), (''dr'', ObjV),
      (''Path'', ObjV), (''xr'', ObjV),
      (''fname_chars'', StrV ''abcdefghijklmnopqrstuvwxyz0123456789''),
      (''DataRequestOutput'', ObjV)]"

definition load_global :: "globals \<Rightarrow> string \<Rightarrow> py_error + pyval" where
  "load_global g name = (case g name of None \<Rightarrow> Inl (NameError name) | Some v \<Rightarrow> Inr v)"

subsection \<open>The date string\<close>

text \<open>\<^verbatim>\<open>'{:02}'.format(i)\<close> for an integer; formatting \<^verbatim>\<open>None\<close> so raises \<^verbatim>\<open>TypeError\<close>.\<close>

definition format_02 :: "int option \<Rightarrow> py_error + string" where
  "format_02 v =
     (case v of
        None \<Rightarrow> Inl TypeError
      | Some i \<Rightarrow> Inr (if 0 \<le> i \<and> i < 10 then CHR ''0'' # py_str i else py_str i))"

text \<open>\<^verbatim>\<open>DataRequestOutput.requestDateAsString(grain, rdate)\<close>.\<close>

definition requestDateAsString ::
  "globals \<Rightarrow> pyval \<Rightarrow> RequestDate option \<Rightarrow> py_error + string" where
  "requestDateAsString g grain rdate =
     (case load_global g ''NONE'' of
        Inl e \<Rightarrow> Inl e
      | Inr none \<Rightarrow>
          (case (if grain = none then None else rdate) of
             None \<Rightarrow> Inr []
           | Some r \<Rightarrow>
               (case load_global g ''ANNUAL'' of
                  Inl e \<Rightarrow> Inl e
                | Inr annual \<Rightarrow>
                    if grain = annual then Inr (py_str (year r))
                    else
                      (case load_global g ''MONTHLY'' of
                         Inl e \<Rightarrow> Inl e
                       | Inr monthly \<Rightarrow>
                           if grain = monthly then
                             (case format_02 (month r) of
                                Inl e \<Rightarrow> Inl e
                              | Inr mm \<Rightarrow> Inr (py_str (year r) @ ''-'' @ mm))
                           else
                             (case load_global g ''DAILY'' of
                                Inl e \<Rightarrow> Inl e
                              | Inr daily \<Rightarrow>
                                  if grain = daily then
                                    (case format_02 (month r) of
                                       Inl e \<Rightarrow> Inl e
                                     | Inr mm \<Rightarrow>
                                         (case format_02 (day r) of
                                            Inl e \<Rightarrow> Inl e
                                          | Inr dd \<Rightarrow>
                                              Inr (py_str (year r) @ ''-'' @ mm @ ''-'' @ dd)))
                                  else Inl (ValueError InvalidDateGranularity))))))"

subsection \<open>The file name of one layer\<close>

text \<open>
  The methods of the class that take a grain and a date, by name. Reading an attribute
  of \<^verbatim>\<open>self\<close> that is no method of the class (the instance has no attributes of its
  own) raises \<^verbatim>\<open>AttributeError\<close>.
\<close>

definition date_string_methods ::
  "string \<rightharpoonup> (globals \<Rightarrow> pyval \<Rightarrow> RequestDate option \<Rightarrow> py_error + string)" where
  "date_string_methods = map_of [(''requestDateAsString'', requestDateAsString)]"

text \<open>\<^verbatim>\<open>DataRequestOutput._getSingleLayerOutputFileName(dsid, varname, grain, rdate)\<close>.\<close>

definition getSingleLayerOutputFileName ::
  "globals \<Rightarrow> string \<Rightarrow> string \<Rightarrow> pyval \<Rightarrow> RequestDate option \<Rightarrow> py_error + string" where
  "getSingleLayerOutputFileName g dsid varname grain rdate =
     (case date_string_methods ''_requestDateAsString'' of
        None \<Rightarrow> Inl (AttributeError ''_requestDateAsString'')
      | Some method \<Rightarrow>
          (case method g grain rdate of
             Inl e \<Rightarrow> Inl e
           | Inr date_str \<Rightarrow>
               if date_str = [] then Inr (dsid @ ''_'' @ varname)
               else Inr (dsid @ ''_'' @ varname @ ''_'' @ date_str)))"

subsection \<open>The raster branch\<close>

text \<open>
  \<^verbatim>\<open>DataRequestOutput._writeRasterFiles(ds_output_dict, request, output_dir)\<close>. The
  results are, per dataset, the variables and for each variable its time steps, kept
  here as request dates; what is returned is the list of the names of the files
  written, in order. In the innermost loop the arguments of the call are evaluated
  first, among them the name \<^verbatim>\<open>grain\<close>, which the method does not bind.
\<close>

type_synonym raster_results = "(string \<times> (string \<times> RequestDate list) list) list"

fun write_timesteps ::
  "globals \<Rightarrow> string \<Rightarrow> string \<Rightarrow> string \<Rightarrow> RequestDate list \<Rightarrow> py_error + string list" where
  "write_timesteps g ext dsid varname [] = Inr []"
| "write_timesteps g ext dsid varname (t # ts) =
     (case load_global g ''grain'' of
        Inl e \<Rightarrow> Inl e
      | Inr grain \<Rightarrow>
          (case getSingleLayerOutputFileName g dsid varname grain (Some t) of
             Inl e \<Rightarrow> Inl e
           | Inr fname \<Rightarrow>
               (case write_timesteps g ext dsid varname ts of
                  Inl e \<Rightarrow> Inl e
                | Inr rest \<Rightarrow> Inr ((fname @ ext) # rest))))"

fun write_variables ::
  "globals \<Rightarrow> string \<Rightarrow> string \<Rightarrow> (string \<times> RequestDate list) list
   \<Rightarrow> py_error + string list" where
  "write_variables g ext dsid [] = Inr []"
| "write_variables g ext dsid ((varname, ts) # vs) =
     (case write_timesteps g ext dsid varname ts of
        Inl e \<Rightarrow> Inl e
      | Inr files \<Rightarrow>
          (case write_variables g ext dsid vs of
             Inl e \<Rightarrow> Inl e
           | Inr rest \<Rightarrow> Inr (files @ rest)))"

fun write_datasets :: "globals \<Rightarrow> string \<Rightarrow> raster_results \<Rightarrow> py_error + string list" where
  "write_datasets g ext [] = Inr []"
| "write_datasets g ext ((dsid, vs) # ds) =
     (case write_variables g ext dsid vs of
        Inl e \<Rightarrow> Inl e
      | Inr files \<Rightarrow>
          (case write_datasets g ext ds of
             Inl e \<Rightarrow> Inl e
           | Inr rest \<Rightarrow> Inr (files @ rest)))"

definition writeRasterFiles :: "globals \<Rightarrow> raster_results \<Rightarrow> string \<Rightarrow> py_error + string list" where
  "writeRasterFiles g ds_output_dict ext =
     (if ext = ''.tif'' then write_datasets g ext ds_output_dict
      else if ext = ''.nc'' then Inr (map (\<lambda>(dsid, vs). dsid @ ext) ds_output_dict)
      else Inl (ValueError UnsupportedRasterFormat))"

text \<open>
  The globals and the method table as they would be with the grain constants of
  \<^verbatim>\<open>api_core.data_request\<close> imported, a grain bound, and the date-string method under
  the name it is called by; used only to show what the naming code computes once the
  names resolve.
\<close>

definition globals_with_grains :: "int \<Rightarrow> globals" where
  "globals_with_grains grain =
     output_module_globals
       (''NONE'' \<mapsto> IntV NONE, ''ANNUAL'' \<mapsto> IntV ANNUAL, ''MONTHLY'' \<mapsto> IntV MONTHLY,
        ''DAILY'' \<mapsto> IntV DAILY, ''grain'' \<mapsto> IntV grain)"

section \<open>Properties of the built-ins\<close>

declare range_up.simps [simp del]
declare range_down.simps [simp del]

lemma split_chr_notin: "sep \<notin> set s \<Longrightarrow> split_chr sep s = [s]"
  by (induction s) auto

lemma split_chr_append:
  "sep \<notin> set a \<Longrightarrow> split_chr sep (a @ sep # b) = a # split_chr sep b"
  by (induction a) auto

lemma range_up_unfold:
  "0 < step \<Longrightarrow> i < stop \<Longrightarrow> range_up i stop step = i # range_up (i + step) stop step"
  by (subst range_up.simps) simp

lemma range_up_empty: "\<not> i < stop \<Longrightarrow> range_up i stop step = []"
  by (subst range_up.simps) simp

lemma step_far:
  fixes x i step :: int
  assumes "0 < step" "i < x" "(x - i) mod step = 0"
  shows "i + step \<le> x"
proof -
  from assms(3) have "step dvd (x - i)" by auto
  with assms(2) have "step \<le> x - i" by (intro zdvd_imp_le) auto
  then show ?thesis by simp
qed

lemma step_shift:
  fixes x i step :: int
  shows "(x - (i + step)) mod step = (x - i) mod step"
proof -
  have "x - (i + step) = (x - i) - step" by simp
  then show ?thesis by (simp only: minus_mod_self2)
qed

lemma range_up_mem:
  "0 < step \<Longrightarrow> x \<in> set (range_up i stop step) \<longleftrightarrow> i \<le> x \<and> x < stop \<and> (x - i) mod step = 0"
proof (induction i stop step rule: range_up.induct)
  case (1 i stop step)
  show ?case
  proof (cases "i < stop")
    case False
    then show ?thesis by (simp add: range_up_empty)
  next
    case True
    have IH: "x \<in> set (range_up (i + step) stop step) \<longleftrightarrow>
              i + step \<le> x \<and> x < stop \<and> (x - i) mod step = 0"
      using "1.IH" "1.prems" True by (simp add: step_shift)
    have *: "x \<in> set (range_up i stop step) \<longleftrightarrow> x = i \<or> x \<in> set (range_up (i + step) stop step)"
      using True "1.prems" by (simp add: range_up_unfold)
    show ?thesis
    proof (cases "x = i")
      case True
      with \<open>i < stop\<close> * show ?thesis by simp
    next
      case False
      show ?thesis
      proof
        assume "x \<in> set (range_up i stop step)"
        with * False IH "1.prems" show "i \<le> x \<and> x < stop \<and> (x - i) mod step = 0" by simp
      next
        assume a: "i \<le> x \<and> x < stop \<and> (x - i) mod step = 0"
        with False have "i < x" by simp
        then have "i + step \<le> x" using step_far[OF "1.prems", of i x] a by simp
        with a IH * show "x \<in> set (range_up i stop step)" by simp
      qed
    qed
  qed
qed

lemma range_up_sorted: "0 < step \<Longrightarrow> sorted_wrt (<) (range_up i stop step)"
proof (induction i stop step rule: range_up.induct)
  case (1 i stop step)
  show ?case
  proof (cases "i < stop")
    case False
    then show ?thesis by (simp add: range_up_empty)
  next
    case True
    have "\<forall>x \<in> set (range_up (i + step) stop step). i < x"
      using range_up_mem[OF "1.prems", of _ "i + step" stop] "1.prems" by auto
    then show ?thesis using "1.IH" True "1.prems" by (simp add: range_up_unfold)
  qed
qed

lemma range_up_filter:
  assumes "0 < step"
  shows "range_up s (e + 1) step = filter (\<lambda>v. (v - s) mod step = 0) [s..e]"
proof (rule sorted_distinct_set_unique)
  show "sorted (range_up s (e + 1) step)"
    using range_up_sorted[OF assms] by (simp add: strict_sorted_iff)
  show "distinct (range_up s (e + 1) step)"
    using range_up_sorted[OF assms] by (simp add: strict_sorted_iff)
  show "sorted (filter (\<lambda>v. (v - s) mod step = 0) [s..e])" by (simp add: sorted_wrt_filter)
  show "distinct (filter (\<lambda>v. (v - s) mod step = 0) [s..e])" by simp
  show "set (range_up s (e + 1) step) = set (filter (\<lambda>v. (v - s) mod step = 0) [s..e])"
    using range_up_mem[OF assms] by auto
qed

declare str_nat.simps [simp del]

subsection \<open>Decimal numerals are read back\<close>

lemma digit_char:
  fixes k :: nat
  assumes "k < 10"
  shows "py_isdigit (char_of (48 + k))" and "digit_val (char_of (48 + k)) = k"
proof -
  have v: "of_char (char_of (48 + k)) = 48 + k"
    using assms by (simp add: of_char_of)
  show "py_isdigit (char_of (48 + k))" using assms v by (simp add: py_isdigit_def)
  show "digit_val (char_of (48 + k)) = k" using v by (simp add: digit_val_def)
qed

lemma str_nat_digits: "c \<in> set (str_nat n) \<Longrightarrow> py_isdigit c"
proof (induction n arbitrary: c rule: str_nat.induct)
  case (1 n)
  show ?case
  proof (cases "n < 10")
    case True
    with "1.prems" show ?thesis by (subst (asm) str_nat.simps) (simp add: digit_char(1))
  next
    case False
    with "1.prems" have "c \<in> set (str_nat (n div 10)) \<or> c = char_of (48 + n mod 10)"
      by (subst (asm) str_nat.simps) auto
    then show ?thesis using "1.IH"[OF False] digit_char(1)[of "n mod 10"] by auto
  qed
qed

lemma str_nat_nonempty: "str_nat n \<noteq> []"
  by (subst str_nat.simps) simp

lemma int_body_snoc:
  assumes "\<forall>x \<in> set xs. py_isdigit x" "py_isdigit c" "xs \<noteq> []"
    "int_body p acc xs = Some v"
  shows "int_body p acc (xs @ [c]) = Some (v * 10 + digit_val c)"
  using assms
proof (induction xs arbitrary: p acc)
  case Nil
  then show ?case by simp
next
  case (Cons x xs)
  show ?case
  proof (cases "xs = []")
    case True
    with Cons.prems show ?thesis by auto
  next
    case False
    with Cons.prems Cons.IH[of True "acc * 10 + digit_val x"] show ?thesis by simp
  qed
qed

lemma int_body_str_nat: "int_body False 0 (str_nat n) = Some n"
proof (induction n rule: str_nat.induct)
  case (1 n)
  show ?case
  proof (cases "n < 10")
    case True
    then show ?thesis by (subst str_nat.simps) (simp add: digit_char(1,2))
  next
    case False
    have "int_body False 0 (str_nat (n div 10) @ [char_of (48 + n mod 10)])
          = Some (n div 10 * 10 + digit_val (char_of (48 + n mod 10)))"
      using "1.IH"[OF False] str_nat_digits str_nat_nonempty digit_char(1)[of "n mod 10"]
      by (intro int_body_snoc) auto
    then show ?thesis using False by (subst str_nat.simps) (simp add: digit_char(2))
  qed
qed

lemma py_strip_digits:
  assumes "\<forall>c \<in> set s. py_isdigit c"
  shows "py_strip s = s"
proof (cases s rule: rev_cases)
  case Nil
  then show ?thesis by (simp add: py_strip_def)
next
  case (snoc xs x)
  have ns: "\<not> py_isspace c" if "py_isdigit c" for c
    using that by (auto simp: py_isdigit_def py_isspace_def)
  have "dropWhile py_isspace s = s"
    using assms ns by (cases s) auto
  moreover have "dropWhile py_isspace (rev s) = rev s"
    using assms ns snoc by simp
  ultimately show ?thesis by (simp add: py_strip_def)
qed

lemma digit_not_sign: "py_isdigit c \<Longrightarrow> c \<noteq> CHR ''-'' \<and> c \<noteq> CHR ''+''"
  by (auto simp: py_isdigit_def)

text \<open>
  The decimal numeral of a non-negative integer, as \<^verbatim>\<open>str\<close> writes it, has no sign or
  separator in it and is read back by \<^verbatim>\<open>int\<close>.
\<close>

lemma py_str_no_separator:
  "0 \<le> i \<Longrightarrow> CHR ''-'' \<notin> set (py_str i) \<and> CHR ''+'' \<notin> set (py_str i)"
  using str_nat_digits digit_not_sign by (auto simp: py_str_def)

lemma py_int_py_str:
  assumes "0 \<le> i"
  shows "py_int (py_str i) = Inr i"
proof -
  have s: "py_str i = str_nat (nat i)" using assms by (simp add: py_str_def)
  obtain c cs where cs: "str_nat (nat i) = c # cs"
    using str_nat_nonempty[of "nat i"] by (cases "str_nat (nat i)") auto
  have d: "py_isdigit c" using str_nat_digits[of c "nat i"] cs by simp
  have "\<forall>x \<in> set (str_nat (nat i)). py_isdigit x" using str_nat_digits by blast
  from py_strip_digits[OF this] have strip: "py_strip (str_nat (nat i)) = c # cs"
    using cs by simp
  have "int_body False 0 (c # cs) = Some (nat i)"
    using int_body_str_nat[of "nat i"] cs by simp
  then show ?thesis
    using digit_not_sign[OF d] strip assms unfolding s py_int_def by simp
qed

section \<open>Properties of the range-expression parser\<close>

lemma py_range_up_filter:
  "0 < inc \<Longrightarrow> py_range s (e + 1) inc = Inr (filter (\<lambda>v. (v - s) mod inc = 0) [s..e])"
  by (simp add: py_range_def range_up_filter)

lemma end_and_inc_plain:
  "CHR ''+'' \<notin> set b \<Longrightarrow> end_and_inc rs b = Inr (b, 1)"
  by (simp add: end_and_inc_def)

lemma end_and_inc_suffix:
  assumes "CHR ''+'' \<notin> set b" "CHR ''+'' \<notin> set c" "py_int c = Inr inc"
  shows "end_and_inc rs (b @ CHR ''+'' # c) = Inr (b, inc)"
  using assms by (simp add: end_and_inc_def split_chr_append split_chr_notin)

lemma checked_range_ok:
  assumes "0 < s" "s \<le> e" "0 < inc" "case maxval of None \<Rightarrow> True | Some m \<Rightarrow> e \<le> m"
  shows "checked_range rs maxval s e inc = Inr (filter (\<lambda>v. (v - s) mod inc = 0) [s..e])"
  using assms by (simp add: checked_range_def py_range_up_filter split: option.splits)

lemma parseRangeStr_parts:
  assumes "split_chr CHR ''-'' rs = [a, b]" "py_int a = Inr s"
    "end_and_inc rs b = Inr (es, inc)" "ending_value rs es maxval = Inr e"
  shows "parseRangeStr rs maxval = checked_range rs maxval s e inc"
  using assms by (simp add: parseRangeStr_def)

lemma parseRangeStr_of_parts:
  assumes a: "CHR ''-'' \<notin> set a"
    and b: "CHR ''-'' \<notin> set b" "CHR ''+'' \<notin> set b"
    and c: "CHR ''-'' \<notin> set c" "CHR ''+'' \<notin> set c"
    and start: "py_int a = Inr s"
    and ending: "if b = ''N'' then maxval = Some e else py_int b = Inr e"
    and incr: "py_int c = Inr inc"
    and bounds: "0 < s" "s \<le> e" "1 \<le> inc"
    and limit: "case maxval of None \<Rightarrow> True | Some m \<Rightarrow> e \<le> m"
  shows "parseRangeStr (a @ ''-'' @ b) maxval = Inr [s..e]
       \<and> parseRangeStr (a @ ''-'' @ b @ ''+'' @ c) maxval
           = Inr (filter (\<lambda>v. (v - s) mod inc = 0) [s..e])"
proof (intro conjI)
  have endv: "ending_value rs b maxval = Inr e" for rs
    using ending by (simp add: ending_value_def split: if_splits)
  have "split_chr CHR ''-'' (a @ ''-'' @ b) = [a, b]"
    using a b by (simp add: split_chr_append split_chr_notin)
  then have "parseRangeStr (a @ ''-'' @ b) maxval = checked_range (a @ ''-'' @ b) maxval s e 1"
    using start end_and_inc_plain[OF b(2)] endv by (rule parseRangeStr_parts)
  also have "\<dots> = Inr (filter (\<lambda>v. (v - s) mod 1 = 0) [s..e])"
    using bounds limit by (intro checked_range_ok) auto
  finally show "parseRangeStr (a @ ''-'' @ b) maxval = Inr [s..e]" by simp
next
  have endv: "ending_value rs b maxval = Inr e" for rs
    using ending by (simp add: ending_value_def split: if_splits)
  have "split_chr CHR ''-'' (a @ ''-'' @ b @ ''+'' @ c) = [a, b @ CHR ''+'' # c]"
    using a b c by (simp add: split_chr_append split_chr_notin)
  then have "parseRangeStr (a @ ''-'' @ b @ ''+'' @ c) maxval
           = checked_range (a @ ''-'' @ b @ ''+'' @ c) maxval s e inc"
    using start end_and_inc_suffix[OF b(2) c(2) incr] endv by (rule parseRangeStr_parts)
  also have "\<dots> = Inr (filter (\<lambda>v. (v - s) mod inc = 0) [s..e])"
    using bounds limit by (intro checked_range_ok) auto
  finally show "parseRangeStr (a @ ''-'' @ b @ ''+'' @ c) maxval
           = Inr (filter (\<lambda>v. (v - s) mod inc = 0) [s..e])" .
qed

text \<open>
  C3 (as amended). With \<open>0 < START \<le> END\<close>, \<open>END \<le> maxval\<close> when \<open>maxval\<close> is given, and
  \<open>INCREMENT \<ge> 1\<close>, the parser returns the ascending integers of \<open>[START..END]\<close> that
  are a whole number of steps away from START, so END itself only when it lands on a
  step; without a suffix the step is 1. This holds for the range string written with
  decimal numerals, with the literal \<open>N\<close> for an END equal to \<open>maxval\<close>, and for any
  three parts without a separator in them that \<^verbatim>\<open>int\<close> reads as these numbers. In
  particular \<open>"1-10+2"\<close> gives \<open>[1,3,5,7,9]\<close> and \<open>"1-N"\<close> with maximum 5 gives
  \<open>[1,2,3,4,5]\<close>.
\<close>

theorem parseRangeStr_well_formed:
  assumes bounds: "0 < s" "s \<le> e" "1 \<le> inc"
    and limit: "case maxval of None \<Rightarrow> True | Some m \<Rightarrow> e \<le> m"
  shows "parseRangeStr (py_str s @ ''-'' @ py_str e) maxval = Inr [s..e]
       \<and> parseRangeStr (py_str s @ ''-'' @ py_str e @ ''+'' @ py_str inc) maxval
           = Inr (filter (\<lambda>v. (v - s) mod inc = 0) [s..e])
       \<and> (maxval = Some e \<longrightarrow>
            parseRangeStr (py_str s @ ''-'' @ ''N'') maxval = Inr [s..e]
            \<and> parseRangeStr (py_str s @ ''-'' @ ''N'' @ ''+'' @ py_str inc) maxval
                = Inr (filter (\<lambda>v. (v - s) mod inc = 0) [s..e]))
       \<and> (\<forall>a b c. CHR ''-'' \<notin> set a \<and> CHR ''-'' \<notin> set b \<and> CHR ''+'' \<notin> set b
             \<and> CHR ''-'' \<notin> set c \<and> CHR ''+'' \<notin> set c \<and> py_int a = Inr s
             \<and> (if b = ''N'' then maxval = Some e else py_int b = Inr e)
             \<and> py_int c = Inr inc \<longrightarrow>
            parseRangeStr (a @ ''-'' @ b) maxval = Inr [s..e]
            \<and> parseRangeStr (a @ ''-'' @ b @ ''+'' @ c) maxval
                = Inr (filter (\<lambda>v. (v - s) mod inc = 0) [s..e]))
       \<and> parseRangeStr ''1-10+2'' None = Inr [1, 3, 5, 7, 9]
       \<and> parseRangeStr ''1-N'' (Some 5) = Inr [1, 2, 3, 4, 5]"
proof -
  have nonneg: "0 \<le> s" "0 \<le> e" "0 \<le> inc" using bounds by simp_all
  note sep = py_str_no_separator[OF nonneg(1)] py_str_no_separator[OF nonneg(2)]
    py_str_no_separator[OF nonneg(3)]
  have ne: "py_str e \<noteq> ''N''"
    using str_nat_digits[of "CHR ''N''" "nat e"] nonneg(2)
    by (auto simp: py_str_def py_isdigit_def)
  have dec: "parseRangeStr (py_str s @ ''-'' @ py_str e) maxval = Inr [s..e]
       \<and> parseRangeStr (py_str s @ ''-'' @ py_str e @ ''+'' @ py_str inc) maxval
           = Inr (filter (\<lambda>v. (v - s) mod inc = 0) [s..e])"
    using sep ne py_int_py_str[OF nonneg(1)] py_int_py_str[OF nonneg(2)]
      py_int_py_str[OF nonneg(3)] bounds limit
    by (intro parseRangeStr_of_parts) simp_all
  have lit: "parseRangeStr (py_str s @ ''-'' @ ''N'') maxval = Inr [s..e]
            \<and> parseRangeStr (py_str s @ ''-'' @ ''N'' @ ''+'' @ py_str inc) maxval
                = Inr (filter (\<lambda>v. (v - s) mod inc = 0) [s..e])"
    if "maxval = Some e"
    using that sep py_int_py_str[OF nonneg(1)] py_int_py_str[OF nonneg(3)] bounds limit
    by (intro parseRangeStr_of_parts) simp_all
  have gen: "parseRangeStr (a @ ''-'' @ b) maxval = Inr [s..e]
            \<and> parseRangeStr (a @ ''-'' @ b @ ''+'' @ c) maxval
                = Inr (filter (\<lambda>v. (v - s) mod inc = 0) [s..e])"
    if "CHR ''-'' \<notin> set a \<and> CHR ''-'' \<notin> set b \<and> CHR ''+'' \<notin> set b
             \<and> CHR ''-'' \<notin> set c \<and> CHR ''+'' \<notin> set c \<and> py_int a = Inr s
             \<and> (if b = ''N'' then maxval = Some e else py_int b = Inr e)
             \<and> py_int c = Inr inc" for a b c
    using that bounds limit by (intro parseRangeStr_of_parts) simp_all
  have ex1: "parseRangeStr ''1-10+2'' None = Inr [1, 3, 5, 7, 9]" by code_simp
  have ex2: "parseRangeStr ''1-N'' (Some 5) = Inr [1, 2, 3, 4, 5]" by code_simp
  from dec lit gen ex1 ex2 show ?thesis by blast
qed

theorem parseRangeStr_well_formed_witness:
  "parseRangeStr ''3-11'' (Some 12) = Inr [3, 4, 5, 6, 7, 8, 9, 10, 11]
   \<and> parseRangeStr ''3-11+4'' (Some 12) = Inr [3, 7, 11]"
proof -
  have s: "py_str 3 = ''3''" "py_str 11 = ''11''" "py_str 4 = ''4''" by code_simp+
  have l: "[3..11] = [3, 4, 5, 6, 7, 8, 9, 10, 11::int]" by code_simp
  have b: "(0::int) < 3" "(3::int) \<le> 11" "(1::int) \<le> 4"
    "case Some (12::int) of None \<Rightarrow> True | Some m \<Rightarrow> 11 \<le> m"
    by simp_all
  from parseRangeStr_well_formed[OF b]
  have "parseRangeStr (py_str 3 @ ''-'' @ py_str 11) (Some 12) = Inr [3..11]"
    "parseRangeStr (py_str 3 @ ''-'' @ py_str 11 @ ''+'' @ py_str 4) (Some 12)
       = Inr (filter (\<lambda>v. (v - 3) mod 4 = 0) [3..11])"
    by blast+
  then show ?thesis by (simp add: s l)
qed

text \<open>
  C3 as stated also covers the increment 0, which the grammar allows: there
  \<^verbatim>\<open>range(1, 11, 0)\<close> raises, and no sequence is returned.
\<close>

theorem parseRangeStr_zero_increment_counterexample:
  "parseRangeStr ''1-10+0'' None = Inl (ValueError RangeStepZero)"
  by code_simp

lemma range_messages_distinct:
  "distinct [range_message (InvalidRangeString rs), range_message (StartExceedsEnd rs),
             range_message (NotGreaterThanZero rs), range_message (EndExceedsMax rs m)]"
  by simp

text \<open>
  C4. The failure conditions of the range parser are checked in this order, each with
  an error of its own, and none returns a sequence: a string that does not split at
  \<open>-\<close> into exactly two parts, or whose second part has a \<open>+\<close> but does not split at
  \<open>+\<close> into exactly two parts, is an invalid range string; once the three numbers are
  read, START > END is reported first, then START \<le> 0 or END \<le> 0, then END above the
  given maximum. The four messages differ for every range string and maximum.
\<close>

theorem parseRangeStr_errors_in_order:
  "(length (split_chr CHR ''-'' rs) \<noteq> 2 \<longrightarrow>
      parseRangeStr rs mv = Inl (ValueError (InvalidRangeString rs)))
 \<and> (split_chr CHR ''-'' rs = [a, b] \<and> py_int a = Inr s \<and> CHR ''+'' \<in> set b
      \<and> length (split_chr CHR ''+'' b) \<noteq> 2 \<longrightarrow>
      parseRangeStr rs mv = Inl (ValueError (InvalidRangeString rs)))
 \<and> (split_chr CHR ''-'' rs = [a, b] \<and> py_int a = Inr s
      \<and> end_and_inc rs b = Inr (es, inc) \<and> ending_value rs es mv = Inr e \<longrightarrow>
        (e < s \<longrightarrow> parseRangeStr rs mv = Inl (ValueError (StartExceedsEnd rs)))
      \<and> (s \<le> e \<and> (s \<le> 0 \<or> e \<le> 0) \<longrightarrow>
           parseRangeStr rs mv = Inl (ValueError (NotGreaterThanZero rs)))
      \<and> (s \<le> e \<and> 0 < s \<and> mv = Some m \<and> m < e \<longrightarrow>
           parseRangeStr rs mv = Inl (ValueError (EndExceedsMax rs m))))
 \<and> distinct [range_message (InvalidRangeString rs), range_message (StartExceedsEnd rs),
             range_message (NotGreaterThanZero rs), range_message (EndExceedsMax rs m)]"
proof (intro conjI impI)
  assume "length (split_chr CHR ''-'' rs) \<noteq> 2"
  then show "parseRangeStr rs mv = Inl (ValueError (InvalidRangeString rs))"
    by (simp add: parseRangeStr_def)
next
  assume "split_chr CHR ''-'' rs = [a, b] \<and> py_int a = Inr s \<and> CHR ''+'' \<in> set b
      \<and> length (split_chr CHR ''+'' b) \<noteq> 2"
  then show "parseRangeStr rs mv = Inl (ValueError (InvalidRangeString rs))"
    by (simp add: parseRangeStr_def end_and_inc_def)
next
  assume p: "split_chr CHR ''-'' rs = [a, b] \<and> py_int a = Inr s
      \<and> end_and_inc rs b = Inr (es, inc) \<and> ending_value rs es mv = Inr e"
  assume "e < s"
  with p show "parseRangeStr rs mv = Inl (ValueError (StartExceedsEnd rs))"
    by (simp add: parseRangeStr_parts checked_range_def)
next
  assume p: "split_chr CHR ''-'' rs = [a, b] \<and> py_int a = Inr s
      \<and> end_and_inc rs b = Inr (es, inc) \<and> ending_value rs es mv = Inr e"
  assume "s \<le> e \<and> (s \<le> 0 \<or> e \<le> 0)"
  with p show "parseRangeStr rs mv = Inl (ValueError (NotGreaterThanZero rs))"
    by (auto simp add: parseRangeStr_parts checked_range_def)
next
  assume p: "split_chr CHR ''-'' rs = [a, b] \<and> py_int a = Inr s
      \<and> end_and_inc rs b = Inr (es, inc) \<and> ending_value rs es mv = Inr e"
  assume "s \<le> e \<and> 0 < s \<and> mv = Some m \<and> m < e"
  with p show "parseRangeStr rs mv = Inl (ValueError (EndExceedsMax rs m))"
    by (auto simp add: parseRangeStr_parts checked_range_def)
next
  show "distinct [range_message (InvalidRangeString rs), range_message (StartExceedsEnd rs),
             range_message (NotGreaterThanZero rs), range_message (EndExceedsMax rs m)]"
    by (rule range_messages_distinct)
qed

theorem parseRangeStr_errors_in_order_witness:
  "parseRangeStr ''1-2-3'' None = Inl (ValueError (InvalidRangeString ''1-2-3''))
 \<and> parseRangeStr ''1-2+3+4'' None = Inl (ValueError (InvalidRangeString ''1-2+3+4''))
 \<and> parseRangeStr ''5-0'' (Some 3) = Inl (ValueError (StartExceedsEnd ''5-0''))
 \<and> parseRangeStr ''0-9'' (Some 5) = Inl (ValueError (NotGreaterThanZero ''0-9''))
 \<and> parseRangeStr ''1-9'' (Some 5) = Inl (ValueError (EndExceedsMax ''1-9'' 5))"
proof (intro conjI)
  have "length (split_chr CHR ''-'' ''1-2-3'') \<noteq> 2" by code_simp
  with parseRangeStr_errors_in_order[of "''1-2-3''" None]
  show "parseRangeStr ''1-2-3'' None = Inl (ValueError (InvalidRangeString ''1-2-3''))"
    by blast
next
  have "split_chr CHR ''-'' ''1-2+3+4'' = [''1'', ''2+3+4''] \<and> py_int ''1'' = Inr 1
      \<and> CHR ''+'' \<in> set ''2+3+4'' \<and> length (split_chr CHR ''+'' ''2+3+4'') \<noteq> 2"
    by code_simp
  with parseRangeStr_errors_in_order[of "''1-2+3+4''" None "''1''" "''2+3+4''" 1]
  show "parseRangeStr ''1-2+3+4'' None = Inl (ValueError (InvalidRangeString ''1-2+3+4''))"
    by blast
next
  have "split_chr CHR ''-'' ''5-0'' = [''5'', ''0''] \<and> py_int ''5'' = Inr 5
      \<and> end_and_inc ''5-0'' ''0'' = Inr (''0'', 1) \<and> ending_value ''5-0'' ''0'' (Some 3) = Inr 0"
    by code_simp
  with parseRangeStr_errors_in_order[of "''5-0''" "Some 3" "''5''" "''0''" 5 "''0''" 1 0]
  show "parseRangeStr ''5-0'' (Some 3) = Inl (ValueError (StartExceedsEnd ''5-0''))"
    by simp
next
  have "split_chr CHR ''-'' ''0-9'' = [''0'', ''9''] \<and> py_int ''0'' = Inr 0
      \<and> end_and_inc ''0-9'' ''9'' = Inr (''9'', 1) \<and> ending_value ''0-9'' ''9'' (Some 5) = Inr 9"
    by code_simp
  with parseRangeStr_errors_in_order[of "''0-9''" "Some 5" "''0''" "''9''" 0 "''9''" 1 9]
  show "parseRangeStr ''0-9'' (Some 5) = Inl (ValueError (NotGreaterThanZero ''0-9''))"
    by simp
next
  have "split_chr CHR ''-'' ''1-9'' = [''1'', ''9''] \<and> py_int ''1'' = Inr 1
      \<and> end_and_inc ''1-9'' ''9'' = Inr (''9'', 1) \<and> ending_value ''1-9'' ''9'' (Some 5) = Inr 9"
    by code_simp
  with parseRangeStr_errors_in_order[of "''1-9''" "Some 5" "''1''" "''9''" 1 "''9''" 1 9 5]
  show "parseRangeStr ''1-9'' (Some 5) = Inl (ValueError (EndExceedsMax ''1-9'' 5))"
    by simp
qed
section \<open>Properties of the simple date range\<close>

declare monthly_loop.simps [simp del]
declare daily_loop.simps [simp del]

lemma chron_less_trans: "chron_less a b \<Longrightarrow> chron_less b c \<Longrightarrow> chron_less a c"
  by (auto simp: chron_less_def)

lemma chron_less_irrefl: "\<not> chron_less a a"
  by (simp add: chron_less_def)

lemma sorted_chron_distinct: "sorted_wrt chron_less xs \<Longrightarrow> distinct xs"
  by (induction xs) (auto simp: chron_less_irrefl)

lemma sorted_wrt_map_upto:
  assumes "\<And>i j. a \<le> i \<Longrightarrow> i < j \<Longrightarrow> j \<le> b \<Longrightarrow> P (f i) (f j)"
  shows "sorted_wrt P (map f [a..b])"
proof -
  have "sorted_wrt (<) [a..b]" by (simp add: strict_sorted_iff)
  then have "sorted_wrt (\<lambda>i j. P (f i) (f j)) [a..b]"
    by (rule sorted_wrt_mono_rel[rotated]) (use assms in auto)
  then show ?thesis by (simp add: sorted_wrt_map)
qed

subsection \<open>Annual\<close>

lemma range_up_one: "range_up s e 1 = [s..e - 1]"
  using range_up_filter[of 1 s "e - 1"] by simp

lemma annual_dates_result:
  assumes "annual_dates a b = Inr dates"
  shows "dates \<noteq> [] \<and> sorted_wrt chron_less dates"
proof -
  from assms obtain s e where se: "py_int a = Inr s" "py_int b = Inr e" "s < e + 1"
    and d: "dates = map (\<lambda>y. RequestDate y None None) [s..e]"
    by (auto simp: annual_dates_def Let_def range_up_one split: sum.splits if_splits)
  have "sorted_wrt chron_less dates"
    unfolding d by (rule sorted_wrt_map_upto) (simp add: chron_less_def)
  moreover have "dates \<noteq> []" using se d by simp
  ultimately show ?thesis by simp
qed

subsection \<open>Monthly\<close>

lemma monthly_loop_eq:
  assumes "cur_y = start_y + m_cnt div 12" "cur_m = m_cnt mod 12 + 1"
  shows "monthly_loop start_y end_y end_m cur_y cur_m m_cnt dates
         = dates @ map (month_of_count start_y) [m_cnt..end_y * 12 + end_m - start_y * 12 - 1]"
  using assms
proof (induction start_y end_y end_m cur_y cur_m m_cnt dates rule: monthly_loop.induct)
  case (1 start_y end_y end_m cur_y cur_m m_cnt dates)
  have key: "cur_y * 12 + cur_m = start_y * 12 + m_cnt + 1"
    using "1.prems" by (simp add: algebra_simps)
  show ?case
  proof (cases "cur_y * 12 + cur_m \<le> end_y * 12 + end_m")
    case True
    then have le: "m_cnt \<le> end_y * 12 + end_m - start_y * 12 - 1" using key by simp
    have "monthly_loop start_y end_y end_m cur_y cur_m m_cnt dates
        = monthly_loop start_y end_y end_m
          (start_y + (m_cnt + 1) div 12) ((m_cnt + 1) mod 12 + 1) (m_cnt + 1)
          (dates @ [RequestDate cur_y (Some cur_m) None])"
      using True by (subst monthly_loop.simps) simp
    also have "\<dots> = (dates @ [RequestDate cur_y (Some cur_m) None])
        @ map (month_of_count start_y) [m_cnt + 1..end_y * 12 + end_m - start_y * 12 - 1]"
      using True by (intro "1.IH") simp_all
    also have "\<dots> = dates @ map (month_of_count start_y) [m_cnt..end_y * 12 + end_m - start_y * 12 - 1]"
      using le "1.prems" by (subst (2) upto_rec1) (simp_all add: month_of_count_def)
    finally show ?thesis .
  next
    case False
    then have "end_y * 12 + end_m - start_y * 12 - 1 < m_cnt" using key by simp
    then show ?thesis using False by (subst monthly_loop.simps) simp
  qed
qed

lemma month_of_count_less:
  "i < j \<Longrightarrow> chron_less (month_of_count sy i) (month_of_count sy j)"
proof -
  assume "i < j"
  then have "i div 12 < j div 12 \<or> (i div 12 = j div 12 \<and> i mod 12 < j mod 12)"
    by presburger
  then show ?thesis
    by (auto simp: chron_less_def month_of_count_def month_num_def)
qed

lemma monthly_dates_result:
  assumes "monthly_dates a b = Inr dates"
  shows "dates \<noteq> [] \<and> sorted_wrt chron_less dates"
proof -
  from assms obtain sy sm ey em where u: "unpack2 a = Inr (sy, sm)" "unpack2 b = Inr (ey, em)"
    and ok: "1 \<le> sm" "sm \<le> 12" "sy * 12 + sm \<le> ey * 12 + em"
    and d: "dates = monthly_loop sy ey em sy sm (sm - 1) []"
    by (auto simp: monthly_dates_def split: sum.splits if_splits prod.splits)
  have "dates = map (month_of_count sy) [sm - 1..ey * 12 + em - sy * 12 - 1]"
    unfolding d using ok by (subst monthly_loop_eq) simp_all
  moreover have "sorted_wrt chron_less (map (month_of_count sy) [sm - 1..ey * 12 + em - sy * 12 - 1])"
    by (rule sorted_wrt_map_upto) (rule month_of_count_less)
  moreover have "[sm - 1..ey * 12 + em - sy * 12 - 1] \<noteq> []" using ok by simp
  ultimately show ?thesis by simp
qed

subsection \<open>Daily\<close>

lemma days_in_month_bounds: "28 \<le> days_in_month y m \<and> days_in_month y m \<le> 31"
  by (simp add: days_in_month_def)

lemma next_day_valid:
  assumes "valid_date c" "d_year (next_day c) \<le> MAXYEAR"
  shows "valid_date (next_day c)"
  using assms days_in_month_bounds[of "d_year c" "d_month c + 1"]
    days_in_month_bounds[of "d_year c + 1" 1]
  by (cases c) (auto simp: valid_date_def next_day_def MINYEAR_def split: if_splits)

lemma date_less_next_day: "valid_date c \<Longrightarrow> date_less c (next_day c)"
  by (cases c) (auto simp: valid_date_def next_day_def date_less_def)

lemma next_day_least:
  assumes "valid_date c" "valid_date e" "date_less c e"
  shows "\<not> date_less e (next_day c)"
  using assms
  by (cases c; cases e) (auto simp: valid_date_def next_day_def date_less_def split: if_splits)

lemma date_less_trans: "date_less a b \<Longrightarrow> date_less b c \<Longrightarrow> date_less a c"
  by (auto simp: date_less_def)

lemma date_less_irrefl: "\<not> date_less a a"
  by (simp add: date_less_def)

lemma date_less_linear: "date_less a b \<or> a = b \<or> date_less b a"
  by (cases a; cases b) (auto simp: date_less_def)

lemma date_less_year: "\<not> date_less e c \<Longrightarrow> d_year c \<le> d_year e"
  by (auto simp: date_less_def)

lemma chron_less_request_date:
  "chron_less (request_date a) (request_date b) = date_less a b"
  by (simp add: chron_less_def request_date_def date_less_def month_num_def day_num_def)

lemma date_add_day_before:
  assumes "valid_date c" "valid_date e" "date_less c e"
  shows "date_add_day c = Inr (next_day c)"
proof -
  have "d_year (next_day c) \<le> d_year e"
    using next_day_least[OF assms] by (rule date_less_year)
  also have "\<dots> \<le> MAXYEAR" using assms(2) by (simp add: valid_date_def)
  finally show ?thesis by (simp add: date_add_day_def)
qed

text \<open>
  The loop from a valid date \<open>c\<close> to a valid date \<open>e\<close> not before it returns, and appends
  valid dates in strictly increasing order, all from \<open>c\<close> on and before \<open>e\<close>.
\<close>

lemma daily_loop_walk:
  assumes "valid_date c" "valid_date e" "\<not> date_less e c"
  shows "\<exists>L. daily_loop c e acc = Inr (acc @ map request_date L)
           \<and> sorted_wrt date_less L
           \<and> (\<forall>d \<in> set L. valid_date d \<and> \<not> date_less d c \<and> date_less d e)
           \<and> (c \<noteq> e \<longrightarrow> L \<noteq> [] \<and> hd L = c)"
  using assms
proof (induction c e acc rule: daily_loop.induct)
  case (1 c e acc)
  show ?case
  proof (cases "c = e")
    case True
    then have "daily_loop c e acc = Inr (acc @ map request_date [])"
      by (subst daily_loop.simps) simp
    with True show ?thesis by (intro exI[of _ "[]"]) simp
  next
    case False
    with "1.prems" have lt: "date_less c e" using date_less_linear[of c e] by blast
    have add: "date_add_day c = Inr (next_day c)"
      using "1.prems"(1,2) lt by (rule date_add_day_before)
    have v: "valid_date (next_day c)"
      using "1.prems"(1) add by (intro next_day_valid) (auto simp: date_add_day_def split: if_splits)
    have nl: "\<not> date_less e (next_day c)"
      using "1.prems"(1,2) lt by (rule next_day_least)
    from "1.IH"[OF False add v "1.prems"(2) nl]
    obtain L where L: "daily_loop (next_day c) e
          (acc @ [RequestDate (d_year c) (Some (d_month c)) (Some (d_day c))])
        = Inr ((acc @ [RequestDate (d_year c) (Some (d_month c)) (Some (d_day c))])
               @ map request_date L)"
      "sorted_wrt date_less L"
      "\<forall>d \<in> set L. valid_date d \<and> \<not> date_less d (next_day c) \<and> date_less d e"
      by blast
    have step: "daily_loop c e acc = daily_loop (next_day c) e
          (acc @ [RequestDate (d_year c) (Some (d_month c)) (Some (d_day c))])"
      using False add by (subst daily_loop.simps) simp
    have after: "date_less c d" if "d \<in> set L" for d
    proof -
      from that L(3) have "\<not> date_less d (next_day c)" by blast
      then have "next_day c = d \<or> date_less (next_day c) d"
        using date_less_linear[of "next_day c" d] by blast
      then show ?thesis
        using date_less_next_day[OF "1.prems"(1)] date_less_trans by blast
    qed
    have "daily_loop c e acc = Inr (acc @ map request_date (c # L))"
      using step L(1) by (simp add: request_date_def)
    moreover have "sorted_wrt date_less (c # L)" using L(2) after by simp
    moreover have "\<forall>d \<in> set (c # L). valid_date d \<and> \<not> date_less d c \<and> date_less d e"
      using L(3) after lt "1.prems"(1) date_less_irrefl date_less_trans
      by (metis set_ConsD)
    ultimately show ?thesis by (intro exI[of _ "c # L"]) simp
  qed
qed

lemma daily_dates_result:
  assumes "daily_dates a b = Inr dates"
  shows "dates \<noteq> [] \<and> sorted_wrt chron_less dates"
proof -
  from assms obtain sy sm sd ey em ed e' where
    v: "valid_date (Date sy sm sd)" "valid_date (Date ey em ed)"
    and le: "\<not> date_less (Date ey em ed) (Date sy sm sd)"
    and e': "date_add_day (Date ey em ed) = Inr e'"
    and d: "daily_loop (Date sy sm sd) e' [] = Inr dates"
    by (auto simp: daily_dates_def dt_date_def split: sum.splits if_splits prod.splits)
  from e' have e'_def: "e' = next_day (Date ey em ed)" and yr: "d_year (next_day (Date ey em ed)) \<le> MAXYEAR"
    by (auto simp: date_add_day_def split: if_splits)
  have ve: "valid_date e'" unfolding e'_def using v(2) yr by (rule next_day_valid)
  have lt: "date_less (Date sy sm sd) e'"
    unfolding e'_def using le date_less_next_day[OF v(2)] date_less_linear date_less_trans
    by metis
  then have nl: "\<not> date_less e' (Date sy sm sd)"
    using date_less_trans date_less_irrefl by blast
  from daily_loop_walk[OF v(1) ve nl, of "[]"] d lt
  obtain L where L: "dates = map request_date L" "sorted_wrt date_less L" "L \<noteq> []"
    using date_less_irrefl by auto
  have "sorted_wrt chron_less (map request_date L)"
    using L(2) by (simp add: sorted_wrt_map chron_less_request_date)
  with L show ?thesis by simp
qed

lemma div_step:
  fixes y n :: int
  assumes "0 < n"
  shows "y div n = (y - 1) div n + (if y mod n = 0 then 1 else 0)"
proof (cases "y mod n = 0")
  case True
  have "n * (y div n) + y mod n = y" by (rule mult_div_mod_eq)
  with True have "n * (y div n) = y" by linarith
  then have "y - 1 = n * (y div n - 1) + (n - 1)"
    by (simp add: right_diff_distrib)
  then have "(y - 1) div n = y div n - 1"
    using assms by (intro int_div_pos_eq[of _ n _ "n - 1"]) simp_all
  with True show ?thesis by simp
next
  case False
  have "0 \<le> y mod n" "y mod n < n"
    using assms by simp_all
  with False have r: "0 \<le> y mod n - 1" "y mod n - 1 < n" by simp_all
  have "n * (y div n) + y mod n = y" by (rule mult_div_mod_eq)
  then have "y - 1 = n * (y div n) + (y mod n - 1)" by linarith
  then have "(y - 1) div n = y div n"
    using r by (intro int_div_pos_eq[of _ n _ "y mod n - 1"]) simp_all
  with False show ?thesis by simp
qed

lemma mod_100_4: "(y::int) mod 100 = 0 \<Longrightarrow> y mod 4 = 0"
proof -
  assume "y mod 100 = 0"
  then have "100 dvd y" by (simp add: dvd_eq_mod_eq_0)
  moreover have "(4::int) dvd 100" by simp
  ultimately have "4 dvd y" by (rule dvd_trans[rotated])
  then show ?thesis by (simp add: dvd_eq_mod_eq_0)
qed

lemma mod_400_100: "(y::int) mod 400 = 0 \<Longrightarrow> y mod 100 = 0"
proof -
  assume "y mod 400 = 0"
  then have "400 dvd y" by (simp add: dvd_eq_mod_eq_0)
  moreover have "(100::int) dvd 400" by simp
  ultimately have "100 dvd y" by (rule dvd_trans[rotated])
  then show ?thesis by (simp add: dvd_eq_mod_eq_0)
qed

lemma days_before_year_Suc:
  "days_before_year (y + 1) = days_before_year y + (if is_leap y then 366 else 365)"
proof -
  define a where "a = (y - 1) div 4"
  define b where "b = (y - 1) div 100"
  define c where "c = (y - 1) div 400"
  have d4: "y div 4 = a + (if y mod 4 = 0 then 1 else 0)"
    unfolding a_def by (rule div_step) simp
  have d100: "y div 100 = b + (if y mod 100 = 0 then 1 else 0)"
    unfolding b_def by (rule div_step) simp
  have d400: "y div 400 = c + (if y mod 400 = 0 then 1 else 0)"
    unfolding c_def by (rule div_step) simp
  have nxt: "days_before_year (y + 1) = y * 365 + y div 4 - y div 100 + y div 400"
    by (simp add: days_before_year_def)
  have cur: "days_before_year y = (y - 1) * 365 + a - b + c"
    by (simp add: days_before_year_def a_def b_def c_def)
  consider (common) "y mod 4 \<noteq> 0" | (leap4) "y mod 4 = 0" "y mod 100 \<noteq> 0"
    | (century) "y mod 100 = 0" "y mod 400 \<noteq> 0" | (leap400) "y mod 400 = 0"
    by fastforce
  then show ?thesis
  proof cases
    case common
    then have "y mod 100 \<noteq> 0" using mod_100_4[of y] by auto
    then have "y mod 400 \<noteq> 0" using mod_400_100[of y] by auto
    have "\<not> is_leap y" using common by (simp add: is_leap_def)
    moreover have "y div 4 = a" "y div 100 = b" "y div 400 = c"
      using d4 d100 d400 common \<open>y mod 100 \<noteq> 0\<close> \<open>y mod 400 \<noteq> 0\<close> by simp_all
    ultimately show ?thesis using nxt cur by simp
  next
    case leap4
    then have "y mod 400 \<noteq> 0" using mod_400_100[of y] by auto
    have "is_leap y" using leap4 by (simp add: is_leap_def)
    moreover have "y div 4 = a + 1" "y div 100 = b" "y div 400 = c"
      using d4 d100 d400 leap4 \<open>y mod 400 \<noteq> 0\<close> by simp_all
    ultimately show ?thesis using nxt cur by simp
  next
    case century
    then have "y mod 4 = 0" using mod_100_4[of y] by auto
    have "\<not> is_leap y" using century by (simp add: is_leap_def)
    moreover have "y div 4 = a + 1" "y div 100 = b + 1" "y div 400 = c"
      using d4 d100 d400 century \<open>y mod 4 = 0\<close> by simp_all
    ultimately show ?thesis using nxt cur by simp
  next
    case leap400
    then have "y mod 100 = 0" using mod_400_100[of y] by auto
    then have "y mod 4 = 0" using mod_100_4[of y] by auto
    have "is_leap y" using leap400 \<open>y mod 4 = 0\<close> by (simp add: is_leap_def)
    moreover have "y div 4 = a + 1" "y div 100 = b + 1" "y div 400 = c + 1"
      using d4 d100 d400 leap400 \<open>y mod 4 = 0\<close> \<open>y mod 100 = 0\<close> by simp_all
    ultimately show ?thesis using nxt cur by simp
  qed
qed

lemma days_before_month_12:
  "days_before_month y 12 = (if is_leap y then 335 else 334)"
  by (simp add: eval_nat_numeral days_in_month_def)

lemma days_before_month_next:
  assumes "1 \<le> m"
  shows "days_before_month y (nat (m + 1)) = days_before_month y (nat m) + days_in_month y m"
proof -
  from assms obtain k where k: "nat m = Suc k" by (cases "nat m") auto
  then have "nat (m + 1) = Suc (Suc k)" using assms by simp
  moreover have "int (Suc k) = m" using k assms by linarith
  ultimately show ?thesis using k by simp
qed

lemma next_day_ordinal:
  assumes "valid_date c"
  shows "toordinal (next_day c) = toordinal c + 1"
proof (cases c)
  case (Date y m d)
  with assms have v: "1 \<le> m" "m \<le> 12" "1 \<le> d" "d \<le> days_in_month y m"
    by (simp_all add: valid_date_def)
  show ?thesis
  proof (cases "d < days_in_month y m")
    case True
    with Date show ?thesis by (simp add: next_day_def toordinal_def)
  next
    case False
    with v have d: "d = days_in_month y m" by simp
    show ?thesis
    proof (cases "m < 12")
      case True
      with Date d v show ?thesis
        by (simp add: next_day_def toordinal_def days_before_month_next)
    next
      case False
      with v have m: "m = 12" by simp
      with Date d show ?thesis
        by (simp add: next_day_def toordinal_def days_before_year_Suc days_before_month_12
            days_in_month_def)
    qed
  qed
qed

lemma daily_loop_ordinals:
  assumes "valid_date c" "valid_date e" "\<not> date_less e c"
  shows "\<exists>L. daily_loop c e acc = Inr (acc @ map request_date L)
           \<and> (\<forall>d \<in> set L. valid_date d)
           \<and> map toordinal L = [toordinal c..toordinal e - 1]
           \<and> toordinal c \<le> toordinal e"
  using assms
proof (induction c e acc rule: daily_loop.induct)
  case (1 c e acc)
  show ?case
  proof (cases "c = e")
    case True
    then have "daily_loop c e acc = Inr (acc @ map request_date [])"
      by (subst daily_loop.simps) simp
    with True show ?thesis by (intro exI[of _ "[]"]) simp
  next
    case False
    with "1.prems" have lt: "date_less c e" using date_less_linear[of c e] by blast
    have add: "date_add_day c = Inr (next_day c)"
      using "1.prems"(1,2) lt by (rule date_add_day_before)
    have v: "valid_date (next_day c)"
      using "1.prems"(1) add by (intro next_day_valid) (auto simp: date_add_day_def split: if_splits)
    have nl: "\<not> date_less e (next_day c)"
      using "1.prems"(1,2) lt by (rule next_day_least)
    from "1.IH"[OF False add v "1.prems"(2) nl]
    obtain L where L: "daily_loop (next_day c) e
          (acc @ [RequestDate (d_year c) (Some (d_month c)) (Some (d_day c))])
        = Inr ((acc @ [RequestDate (d_year c) (Some (d_month c)) (Some (d_day c))])
               @ map request_date L)"
      "\<forall>d \<in> set L. valid_date d"
      "map toordinal L = [toordinal (next_day c)..toordinal e - 1]"
      "toordinal (next_day c) \<le> toordinal e"
      by blast
    have ord: "toordinal (next_day c) = toordinal c + 1"
      using "1.prems"(1) by (rule next_day_ordinal)
    have step: "daily_loop c e acc = daily_loop (next_day c) e
          (acc @ [RequestDate (d_year c) (Some (d_month c)) (Some (d_day c))])"
      using False add by (subst daily_loop.simps) simp
    have "daily_loop c e acc = Inr (acc @ map request_date (c # L))"
      using step L(1) by (simp add: request_date_def)
    moreover have "\<forall>d \<in> set (c # L). valid_date d" using L(2) "1.prems"(1) by simp
    moreover have "map toordinal (c # L) = [toordinal c..toordinal e - 1]"
      using L(3,4) ord by (subst upto_rec1) simp_all
    moreover have "toordinal c \<le> toordinal e" using L(4) ord by simp
    ultimately show ?thesis by (intro exI[of _ "c # L"]) simp
  qed
qed

text \<open>
  The daily branch on two valid dates, the end not before the start and not the last
  representable day: the dates returned are valid calendar days whose day numbers are
  exactly the consecutive integers from the start's to the end's.
\<close>

lemma daily_dates_calendar_walk:
  assumes a: "unpack3 a = Inr (sy, sm, sd)" and b: "unpack3 b = Inr (ey, em, ed)"
    and v: "valid_date (Date sy sm sd)" "valid_date (Date ey em ed)"
    and le: "\<not> date_less (Date ey em ed) (Date sy sm sd)"
    and nm: "Date ey em ed \<noteq> Date 9999 12 31"
  shows "\<exists>L. daily_dates a b = Inr (map request_date L)
           \<and> (\<forall>d \<in> set L. valid_date d)
           \<and> map toordinal L = [toordinal (Date sy sm sd)..toordinal (Date ey em ed)]"
proof -
  let ?s = "Date sy sm sd" and ?e = "Date ey em ed"
  have yr: "d_year (next_day ?e) \<le> MAXYEAR"
    using v(2) nm by (auto simp: valid_date_def next_day_def MAXYEAR_def days_in_month_def)
  then have add: "date_add_day ?e = Inr (next_day ?e)" by (simp add: date_add_day_def)
  have ve: "valid_date (next_day ?e)" using v(2) yr by (rule next_day_valid)
  have "date_less ?s (next_day ?e)"
    using le date_less_next_day[OF v(2)] date_less_linear date_less_trans by metis
  then have nl: "\<not> date_less (next_day ?e) ?s"
    using date_less_trans date_less_irrefl by blast
  from daily_loop_ordinals[OF v(1) ve nl, of "[]"]
  obtain L where L: "daily_loop ?s (next_day ?e) [] = Inr (map request_date L)"
    "\<forall>d \<in> set L. valid_date d" "map toordinal L = [toordinal ?s..toordinal (next_day ?e) - 1]"
    by auto
  have "daily_dates a b = Inr (map request_date L)"
    using a b v le add L(1) by (simp add: daily_dates_def dt_date_def)
  moreover have "toordinal (next_day ?e) - 1 = toordinal ?e"
    using next_day_ordinal[OF v(2)] by simp
  ultimately show ?thesis using L(2,3) by auto
qed

lemma daily_dates_end_before_start:
  assumes "unpack3 a = Inr (sy, sm, sd)" "unpack3 b = Inr (ey, em, ed)"
    "valid_date (Date sy sm sd)" "valid_date (Date ey em ed)"
    "date_less (Date ey em ed) (Date sy sm sd)"
  shows "daily_dates a b = Inl (ValueError EndPrecedesStart)"
  using assms by (simp add: daily_dates_def dt_date_def)

subsection \<open>The parsed date selection\<close>

lemma parseSimpleDateRange_result:
  assumes "parseSimpleDateRange ds de = Inr (dates, grain)"
  shows "dates \<noteq> [] \<and> sorted_wrt chron_less dates \<and> grain \<in> {ANNUAL, MONTHLY, DAILY}"
  using assms annual_dates_result monthly_dates_result daily_dates_result
  by (auto simp: parseSimpleDateRange_def Let_def split: if_splits sum.splits)

text \<open>
  C6. Whenever date parsing returns, the dates are empty exactly when the grain is
  NONE, and the dates are in strictly chronological order, hence without duplicates.
  When all five inputs are absent (\<^verbatim>\<open>None\<close> or the empty string) it returns the empty
  sequence with grain NONE and raises nothing.
\<close>

theorem parseDates_selection_invariant:
  "(parseDates ds de ys ms dys = Inr (dates, grain) \<longrightarrow>
      (dates = [] \<longleftrightarrow> grain = NONE) \<and> sorted_wrt chron_less dates \<and> distinct dates)
 \<and> (absent ds \<and> absent de \<and> absent ys \<and> absent ms \<and> absent dys \<longrightarrow>
      parseDates ds de ys ms dys = Inr ([], NONE))"
proof -
  have inv: "(dates = [] \<longleftrightarrow> grain = NONE) \<and> sorted_wrt chron_less dates \<and> distinct dates"
    if r: "parseDates ds de ys ms dys = Inr (dates, grain)"
  proof (cases "absent ds \<and> absent de \<and> absent ys \<and> absent ms \<and> absent dys")
    case True
    with r show ?thesis by (simp add: parseDates_def)
  next
    case False
    with r have "parseSimpleDateRange ds de = Inr (dates, grain)"
      by (auto simp: parseDates_def split: if_splits sum.splits)
    from parseSimpleDateRange_result[OF this] show ?thesis
      by (auto simp: NONE_def ANNUAL_def MONTHLY_def DAILY_def sorted_chron_distinct)
  qed
  have none: "parseDates ds de ys ms dys = Inr ([], NONE)"
    if "absent ds \<and> absent de \<and> absent ys \<and> absent ms \<and> absent dys"
    using that by (simp add: parseDates_def)
  from inv none show ?thesis by blast
qed

theorem parseDates_selection_invariant_witness:
  "parseDates (Some ''2020-11'') (Some ''2021-02'') None None None
     = Inr ([RequestDate 2020 (Some 11) None, RequestDate 2020 (Some 12) None,
             RequestDate 2021 (Some 1) None, RequestDate 2021 (Some 2) None], MONTHLY)
 \<and> MONTHLY \<noteq> NONE
 \<and> sorted_wrt chron_less [RequestDate 2020 (Some 11) None, RequestDate 2020 (Some 12) None,
             RequestDate 2021 (Some 1) None, RequestDate 2021 (Some 2) None]
 \<and> distinct [RequestDate 2020 (Some 11) None, RequestDate 2020 (Some 12) None,
             RequestDate 2021 (Some 1) None, RequestDate 2021 (Some 2) None]
 \<and> parseDates None (Some []) None None None = Inr ([], NONE)"
proof -
  have run: "parseDates (Some ''2020-11'') (Some ''2021-02'') None None None
     = Inr ([RequestDate 2020 (Some 11) None, RequestDate 2020 (Some 12) None,
             RequestDate 2021 (Some 1) None, RequestDate 2021 (Some 2) None], MONTHLY)"
    by code_simp
  have ab: "absent None \<and> absent (Some [])" by (simp add: absent_def)
  from parseDates_selection_invariant[of "Some ''2020-11''" "Some ''2021-02''" None None None
      "[RequestDate 2020 (Some 11) None, RequestDate 2020 (Some 12) None,
             RequestDate 2021 (Some 1) None, RequestDate 2021 (Some 2) None]" MONTHLY] run
  have 1: "MONTHLY \<noteq> NONE
    \<and> sorted_wrt chron_less [RequestDate 2020 (Some 11) None, RequestDate 2020 (Some 12) None,
             RequestDate 2021 (Some 1) None, RequestDate 2021 (Some 2) None]
    \<and> distinct [RequestDate 2020 (Some 11) None, RequestDate 2020 (Some 12) None,
             RequestDate 2021 (Some 1) None, RequestDate 2021 (Some 2) None]"
    by blast
  from parseDates_selection_invariant[of None "Some []" None None None] ab
  have 2: "parseDates None (Some []) None None None = Inr ([], NONE)" by blast
  from run 1 2 show ?thesis by blast
qed

text \<open>
  C1 describes what the year/month/day path is to produce: annual dates from
  \<open>years\<close> alone, the product of years and months, or days of the year with day 366
  dropped outside leap years. In the source this path never returns: with \<open>years\<close>
  given and no start or end date, \<^verbatim>\<open>_parseYMD\<close> raises \<^verbatim>\<open>AttributeError\<close> at its first
  use of \<^verbatim>\<open>self._parseDateRange\<close>, for \<open>years\<close> alone, with \<open>months\<close> and with \<open>days\<close>.
\<close>

theorem parseDates_combinatorial_raises:
  "parseDates None None (Some ''2019'') None None = Inl (AttributeError ''_parseDateRange'')
 \<and> parseDates None None (Some ''2019-2020'') (Some ''1-12'') None
     = Inl (AttributeError ''_parseDateRange'')
 \<and> parseDates None None (Some ''2019-2020'') None (Some ''365-366'')
     = Inl (AttributeError ''_parseDateRange'')"
  by (simp add: parseDates_def parseYMD_def absent_def)

theorem parseDates_combinatorial_raises_witness:
  "parseDates None None (Some ''2019-2020'') None (Some ''365-366'')
   = Inl (AttributeError ''_parseDateRange'')"
  using parseDates_combinatorial_raises by blast

text \<open>
  C5 promises the walk for every pair of valid dates with the end not before the
  start. For an end date of 9999-12-31 the source first adds one day to the end date,
  which raises \<^verbatim>\<open>OverflowError\<close>, and no dates are returned. (For every earlier end date
  the walk is the calendar's, see \<open>daily_dates_calendar_walk\<close>.)
\<close>

theorem parseSimpleDateRange_last_day_overflow:
  "parseSimpleDateRange (Some ''9999-12-30'') (Some ''9999-12-31'') = Inl OverflowError"
  by code_simp

theorem parseSimpleDateRange_last_day_overflow_witness:
  "\<exists>e. parseSimpleDateRange (Some ''9999-12-30'') (Some ''9999-12-31'') = Inl e"
  using parseSimpleDateRange_last_day_overflow by blast

lemma parseSimpleDateRange_leap_boundary:
  "parseSimpleDateRange (Some ''2020-02-27'') (Some ''2020-03-01'')
   = Inr ([RequestDate 2020 (Some 2) (Some 27), RequestDate 2020 (Some 2) (Some 28),
           RequestDate 2020 (Some 2) (Some 29), RequestDate 2020 (Some 3) (Some 1)], DAILY)"
  by code_simp
section \<open>The earlier parser and the current one\<close>

declare legacy_monthly_loop.simps [simp del]
declare legacy_daily_loop.simps [simp del]

subsection \<open>Dictionaries\<close>

lemma dict_has_iff: "dict_has k d \<longleftrightarrow> k \<in> fst ` set d"
  by (induction d) auto

lemma dict_set_new: "k \<notin> fst ` set d \<Longrightarrow> dict_set k v d = d @ [(k, v)]"
  by (induction d) auto

lemma dict_modify_last:
  "k \<notin> fst ` set d \<Longrightarrow> dict_modify k f (d @ [(k, v)]) = d @ [(k, f v)]"
  by (induction d) auto

lemma months_of_last: "k \<notin> fst ` set d \<Longrightarrow> months_of k (d @ [(k, ms)]) = ms"
  by (induction d) (auto simp: months_of_def)

lemma flatten_dates_append:
  "flatten_dates (A @ B) = flatten_dates A @ flatten_dates B"
  by (simp add: flatten_dates_def)

lemma flatten_dates_single: "flatten_dates [ym] = flatten_year ym"
  by (simp add: flatten_dates_def)

lemma flatten_year_snoc:
  "flatten_year (y, B @ [md]) = concat (map (flatten_month y) B) @ flatten_month y md"
  by (simp add: flatten_year_def)

lemma flatten_year_snoc2:
  "flatten_year (y, (B @ [md]) @ [md']) = flatten_year (y, B @ [md]) @ flatten_month y md'"
  by (simp add: flatten_year_def)

subsection \<open>Annual\<close>

lemma fold_dict_set_years:
  fixes ys :: "int list" and D :: date_tree
  assumes "sorted_wrt (<) ys" "\<forall>y \<in> set ys. \<forall>k \<in> fst ` set D. k < y"
  shows "fold (\<lambda>year dates. dict_set year [] dates) ys D = D @ map (\<lambda>y. (y, [])) ys"
  using assms
proof (induction ys arbitrary: D)
  case Nil
  then show ?case by simp
next
  case (Cons y ys)
  have new: "y \<notin> fst ` set D" using Cons.prems(2) by force
  have "fold (\<lambda>year dates. dict_set year [] dates) (y # ys) D
        = fold (\<lambda>year dates. dict_set year [] dates) ys (D @ [(y, [])])"
    by (simp add: dict_set_new[OF new])
  also have "\<dots> = (D @ [(y, [])]) @ map (\<lambda>y. (y, [])) ys"
    using Cons.prems by (intro Cons.IH) auto
  finally show ?case by simp
qed

lemma flatten_years: "flatten_dates (map (\<lambda>y. (y, [])) ys) = map (\<lambda>y. RequestDate y None None) ys"
  by (induction ys) (simp_all add: flatten_dates_def flatten_year_def)

lemma annual_agrees: "annual_dates a b = map_sum id flatten_dates (legacy_annual a b)"
proof -
  have "flatten_dates (fold (\<lambda>year dates. dict_set year [] dates) (range_up s e 1) [])
        = map (\<lambda>y. RequestDate y None None) (range_up s e 1)" for s e
  proof -
    have "fold (\<lambda>year dates. dict_set year [] dates) (range_up s e 1) ([] :: date_tree)
          = [] @ map (\<lambda>y. (y, [])) (range_up s e 1)"
      by (rule fold_dict_set_years) (simp_all add: range_up_sorted)
    then show ?thesis by (simp only: append_Nil flatten_years)
  qed
  then show ?thesis
    by (simp add: annual_dates_def legacy_annual_def Let_def split: sum.splits)
qed

subsection \<open>Monthly\<close>

lemma legacy_monthly_loop_eq:
  assumes "cur_y = start_y + m_cnt div 12" "cur_m = m_cnt mod 12 + 1"
  shows "legacy_monthly_loop start_y end_y end_m cur_y cur_m m_cnt dates
         = fold (\<lambda>j. add_month (start_y + j div 12) (j mod 12 + 1))
             [m_cnt..end_y * 12 + end_m - start_y * 12 - 1] dates"
  using assms
proof (induction start_y end_y end_m cur_y cur_m m_cnt dates rule: legacy_monthly_loop.induct)
  case (1 start_y end_y end_m cur_y cur_m m_cnt dates)
  have key: "cur_y * 12 + cur_m = start_y * 12 + m_cnt + 1"
    using "1.prems" by (simp add: algebra_simps)
  show ?case
  proof (cases "cur_y * 12 + cur_m \<le> end_y * 12 + end_m")
    case True
    then have le: "m_cnt \<le> end_y * 12 + end_m - start_y * 12 - 1" using key by simp
    have "legacy_monthly_loop start_y end_y end_m cur_y cur_m m_cnt dates
        = legacy_monthly_loop start_y end_y end_m
          (start_y + (m_cnt + 1) div 12) ((m_cnt + 1) mod 12 + 1) (m_cnt + 1)
          (add_month cur_y cur_m dates)"
      using True by (subst legacy_monthly_loop.simps) simp
    also have "\<dots> = fold (\<lambda>j. add_month (start_y + j div 12) (j mod 12 + 1))
             [m_cnt + 1..end_y * 12 + end_m - start_y * 12 - 1] (add_month cur_y cur_m dates)"
      using True by (intro "1.IH") simp_all
    also have "\<dots> = fold (\<lambda>j. add_month (start_y + j div 12) (j mod 12 + 1))
             [m_cnt..end_y * 12 + end_m - start_y * 12 - 1] dates"
      using le "1.prems" by (subst (2) upto_rec1) simp_all
    finally show ?thesis .
  next
    case False
    then have "end_y * 12 + end_m - start_y * 12 - 1 < m_cnt" using key by simp
    then show ?thesis using False by (subst legacy_monthly_loop.simps) simp
  qed
qed

lemma add_month_flatten:
  assumes "month_tree D y m"
  shows "flatten_dates (add_month y m D) = flatten_dates D @ [RequestDate y (Some m) None]"
    and "y < y' \<or> (y = y' \<and> m < m') \<Longrightarrow> month_tree (add_month y m D) y' m'"
proof -
  have "flatten_dates (add_month y m D) = flatten_dates D @ [RequestDate y (Some m) None]
      \<and> (y < y' \<or> (y = y' \<and> m < m') \<longrightarrow> month_tree (add_month y m D) y' m')"
  proof (cases "D = []")
    case True
    have "add_month y m [] = [] @ [(y, [] @ [(m, [])])]" by (simp add: add_month_def)
    then have "month_tree (add_month y m []) y' m'" if "y < y' \<or> (y = y' \<and> m < m')"
      unfolding month_tree_def using that by (intro disjI2 exI[of _ "[]"] exI[of _ y] exI[of _ m]) simp
    then show ?thesis using True
      by (simp add: add_month_def flatten_dates_def flatten_year_def flatten_month_def)
  next
    case False
    with assms obtain A y0 B m0 where D: "D = A @ [(y0, B @ [(m0, [])])]"
      and A: "\<forall>k \<in> fst ` set A. k < y0" and B: "\<forall>k \<in> fst ` set B. k < m0"
      and le: "y0 < y \<or> (y0 = y \<and> m0 < m)"
      by (auto simp: month_tree_def)
    have y0A: "y0 \<notin> fst ` set A" using A by auto
    show ?thesis
    proof (cases "y0 = y")
      case True
      with le have m: "m0 < m" by simp
      have has: "dict_has y D" using D True by (simp add: dict_has_iff)
      have mB: "m \<notin> fst ` set (B @ [(m0, [])])" using B m by auto
      have eq: "add_month y m D = A @ [(y, (B @ [(m0, [])]) @ [(m, [])])]"
        using has D True y0A by (simp add: add_month_def dict_modify_last dict_set_new[OF mB])
      have "flatten_dates (add_month y m D)
            = flatten_dates (A @ [(y, (B @ [(m0, [])]) @ [(m, [])])])"
        by (simp only: eq)
      also have "\<dots> = flatten_dates (A @ [(y, B @ [(m0, [])])]) @ flatten_month y (m, [])"
        by (simp add: flatten_dates_def flatten_year_def)
      finally have fl: "flatten_dates (add_month y m D)
            = flatten_dates D @ [RequestDate y (Some m) None]"
        using D True by (simp add: flatten_month_def)
      have "month_tree (add_month y m D) y' m'" if "y < y' \<or> (y = y' \<and> m < m')"
        unfolding month_tree_def eq
        using that A B m True
        by (intro disjI2 exI[of _ A] exI[of _ y] exI[of _ "B @ [(m0, [])]"] exI[of _ m]) auto
      with fl show ?thesis by simp
    next
      case False
      with le have y: "y0 < y" by simp
      have yD: "y \<notin> fst ` set D" using D A y by auto
      then have nh: "\<not> dict_has y D" by (simp add: dict_has_iff)
      have eq: "add_month y m D = D @ [(y, [] @ [(m, [])])]"
        using nh yD by (simp add: add_month_def dict_set_new dict_modify_last)
      have fl: "flatten_dates (add_month y m D) = flatten_dates D @ [RequestDate y (Some m) None]"
        unfolding eq
        by (simp add: flatten_dates_append flatten_dates_single flatten_year_def flatten_month_def)
      have "\<forall>k \<in> fst ` set D. k < y" using D A y by auto
      then have "month_tree (add_month y m D) y' m'" if "y < y' \<or> (y = y' \<and> m < m')"
        unfolding month_tree_def eq
        using that
        by (intro disjI2 exI[of _ D] exI[of _ y] exI[of _ "[]"] exI[of _ m]) auto
      with fl show ?thesis by simp
    qed
  qed
  then show "flatten_dates (add_month y m D) = flatten_dates D @ [RequestDate y (Some m) None]"
    and "y < y' \<or> (y = y' \<and> m < m') \<Longrightarrow> month_tree (add_month y m D) y' m'"
    by simp_all
qed

lemma month_pair_less:
  fixes i j :: int
  assumes "i < j"
  shows "i div 12 < j div 12 \<or> (i div 12 = j div 12 \<and> i mod 12 < j mod 12)"
  using assms by presburger

lemma fold_add_month_flatten:
  assumes "sorted_wrt (<) js"
    and "js \<noteq> [] \<Longrightarrow> month_tree D (sy + hd js div 12) (hd js mod 12 + 1)"
  shows "flatten_dates (fold (\<lambda>j. add_month (sy + j div 12) (j mod 12 + 1)) js D)
         = flatten_dates D @ map (month_of_count sy) js"
  using assms
proof (induction js arbitrary: D)
  case Nil
  then show ?case by simp
next
  case (Cons j js)
  have t: "month_tree D (sy + j div 12) (j mod 12 + 1)" using Cons.prems(2) by simp
  have nxt: "month_tree (add_month (sy + j div 12) (j mod 12 + 1) D)
               (sy + hd js div 12) (hd js mod 12 + 1)" if "js \<noteq> []"
  proof -
    from that Cons.prems(1) have "j < hd js" by (cases js) auto
    from month_pair_less[OF this] show ?thesis
      by (intro add_month_flatten(2)[OF t]) auto
  qed
  have "flatten_dates (fold (\<lambda>j. add_month (sy + j div 12) (j mod 12 + 1)) (j # js) D)
      = flatten_dates (fold (\<lambda>j. add_month (sy + j div 12) (j mod 12 + 1)) js
          (add_month (sy + j div 12) (j mod 12 + 1) D))"
    by simp
  also have "\<dots> = flatten_dates (add_month (sy + j div 12) (j mod 12 + 1) D)
        @ map (month_of_count sy) js"
    using Cons.prems(1) nxt by (intro Cons.IH) auto
  also have "\<dots> = flatten_dates D @ map (month_of_count sy) (j # js)"
    by (simp add: add_month_flatten(1)[OF t] month_of_count_def)
  finally show ?case .
qed

lemma monthly_agrees: "monthly_dates a b = map_sum id flatten_dates (legacy_monthly a b)"
proof -
  have "flatten_dates (legacy_monthly_loop sy ey em sy sm (sm - 1) [])
        = monthly_loop sy ey em sy sm (sm - 1) []"
    if "1 \<le> sm" "sm \<le> 12" for sy sm ey em
  proof -
    have c: "sy = sy + (sm - 1) div 12" "sm = (sm - 1) mod 12 + 1" using that by simp_all
    have "flatten_dates (legacy_monthly_loop sy ey em sy sm (sm - 1) [])
        = flatten_dates (fold (\<lambda>j. add_month (sy + j div 12) (j mod 12 + 1))
             [sm - 1..ey * 12 + em - sy * 12 - 1] [])"
      using c by (subst legacy_monthly_loop_eq) simp_all
    also have "\<dots> = flatten_dates [] @ map (month_of_count sy) [sm - 1..ey * 12 + em - sy * 12 - 1]"
      by (rule fold_add_month_flatten) (simp_all add: month_tree_def strict_sorted_iff)
    also have "\<dots> = monthly_loop sy ey em sy sm (sm - 1) []"
      using c by (subst monthly_loop_eq) (simp_all add: flatten_dates_def)
    finally show ?thesis .
  qed
  then show ?thesis
    by (auto simp: monthly_dates_def legacy_monthly_def split: sum.splits prod.splits)
qed

subsection \<open>Daily\<close>

lemma next_day_month_mono:
  "d_year c < d_year (next_day c)
   \<or> (d_year c = d_year (next_day c) \<and> d_month c \<le> d_month (next_day c))"
  by (simp add: next_day_def)

lemma daily_loops_together:
  "(\<exists>err. daily_loop c e acc = Inl err \<and> legacy_daily_loop c e D = Inl err)
   \<or> (\<exists>L. daily_loop c e acc = Inr (acc @ map request_date L)
          \<and> legacy_daily_loop c e D = Inr (fold add_day L D) \<and> day_chain c L)"
proof (induction c e acc arbitrary: D rule: daily_loop.induct)
  case (1 c e acc)
  show ?case
  proof (cases "c = e")
    case True
    have "daily_loop c e acc = Inr (acc @ map request_date [])"
      using True by (subst daily_loop.simps) simp
    moreover have "legacy_daily_loop c e D = Inr (fold add_day [] D)"
      using True by (subst legacy_daily_loop.simps) simp
    ultimately show ?thesis using day_chain.simps(1) by blast
  next
    case False
    show ?thesis
    proof (cases "date_add_day c")
      case (Inl err)
      have "daily_loop c e acc = Inl err"
        using False Inl by (subst daily_loop.simps) simp
      moreover have "legacy_daily_loop c e D = Inl err"
        using False Inl by (subst legacy_daily_loop.simps) simp
      ultimately show ?thesis by blast
    next
      case (Inr nxt)
      then have nxt: "nxt = next_day c" by (auto simp: date_add_day_def split: if_splits)
      let ?acc = "acc @ [RequestDate (d_year c) (Some (d_month c)) (Some (d_day c))]"
      have s1: "daily_loop c e acc = daily_loop nxt e ?acc"
        using False Inr by (subst daily_loop.simps) simp
      have s2: "legacy_daily_loop c e D = legacy_daily_loop nxt e (add_day c D)"
        using False Inr by (subst legacy_daily_loop.simps) simp
      from "1.IH"[OF False Inr, of "add_day c D"]
      consider (err) err where "daily_loop nxt e ?acc = Inl err"
          "legacy_daily_loop nxt e (add_day c D) = Inl err"
        | (ok) L where "daily_loop nxt e ?acc = Inr (?acc @ map request_date L)"
          "legacy_daily_loop nxt e (add_day c D) = Inr (fold add_day L (add_day c D))"
          "day_chain nxt L"
        by blast
      then show ?thesis
      proof cases
        case err
        with s1 s2 show ?thesis by simp
      next
        case ok
        have "daily_loop c e acc = Inr (acc @ map request_date (c # L))"
          using s1 ok(1) by (simp add: request_date_def)
        moreover have "legacy_daily_loop c e D = Inr (fold add_day (c # L) D)"
          using s2 ok(2) by simp
        moreover have "day_chain c (c # L)" using ok(3) nxt by simp
        ultimately show ?thesis by blast
      qed
    qed
  qed
qed

lemma add_day_flatten:
  assumes "day_tree D (d_year c) (d_month c)"
  shows "flatten_dates (add_day c D) = flatten_dates D @ [request_date c]"
    and "d_year c < y' \<or> (d_year c = y' \<and> d_month c \<le> m') \<Longrightarrow> day_tree (add_day c D) y' m'"
proof -
  obtain y m d where c: "c = Date y m d" by (cases c)
  have "flatten_dates (add_day c D) = flatten_dates D @ [request_date c]
      \<and> (y < y' \<or> (y = y' \<and> m \<le> m') \<longrightarrow> day_tree (add_day c D) y' m')"
  proof (cases "D = []")
    case True
    have eq: "add_day c [] = [] @ [(y, [] @ [(m, [d])])]" by (simp add: add_day_def c months_of_def)
    have "day_tree (add_day c []) y' m'" if "y < y' \<or> (y = y' \<and> m \<le> m')"
      unfolding day_tree_def eq using that
      by (intro disjI2 exI[of _ "[]"] exI[of _ y] exI[of _ m] exI[of _ "[d]"]) simp
    moreover have "flatten_dates (add_day c []) = [request_date c]"
      unfolding eq by (simp add: flatten_dates_def flatten_year_def flatten_month_def request_date_def c)
    ultimately show ?thesis using True by (simp add: flatten_dates_def)
  next
    case False
    with assms obtain A y0 B m0 ds where D: "D = A @ [(y0, B @ [(m0, ds)])]" and ds: "ds \<noteq> []"
      and A: "\<forall>k \<in> fst ` set A. k < y0" and B: "\<forall>k \<in> fst ` set B. k < m0"
      and le: "y0 < y \<or> (y0 = y \<and> m0 \<le> m)"
      by (auto simp: day_tree_def c)
    have y0A: "y0 \<notin> fst ` set A" using A by auto
    have m0B: "m0 \<notin> fst ` set B" using B by auto
    show ?thesis
    proof (cases "y0 = y")
      case True
      with le have m: "m0 \<le> m" by simp
      have yA: "y \<notin> fst ` set A" using y0A True by simp
      have has: "dict_has y D" using D True by (simp add: dict_has_iff)
      have mo: "months_of y D = B @ [(m0, ds)]"
        unfolding D True[symmetric] using y0A by (rule months_of_last)
      show ?thesis
      proof (cases "m0 = m")
        case same: True
        have mB: "m \<notin> fst ` set B" using m0B same by simp
        have hm: "dict_has m (months_of y D)" using mo same by (simp add: dict_has_iff)
        have eq: "add_day c D = A @ [(y, B @ [(m, ds @ [d])])]"
          using has hm D True same
          by (simp add: add_day_def c dict_modify_last[OF yA] dict_modify_last[OF mB])
        have "flatten_dates (add_day c D) = flatten_dates D @ [request_date c]"
          unfolding eq using D True same ds
          by (simp add: flatten_dates_def flatten_year_def flatten_month_def request_date_def c)
        moreover have "day_tree (add_day c D) y' m'" if "y < y' \<or> (y = y' \<and> m \<le> m')"
          unfolding day_tree_def eq using that A B True same
          by (intro disjI2 exI[of _ A] exI[of _ y] exI[of _ B] exI[of _ m] exI[of _ "ds @ [d]"])
             auto
        ultimately show ?thesis by simp
      next
        case diff: False
        with m have lt: "m0 < m" by simp
        have mB: "m \<notin> fst ` set (B @ [(m0, ds)])" using B lt by auto
        have hm: "\<not> dict_has m (months_of y D)" using mo mB by (simp add: dict_has_iff)
        have D': "D = A @ [(y, B @ [(m0, ds)])]" using D True by simp
        have d2: "dict_modify y (dict_set m []) D = A @ [(y, (B @ [(m0, ds)]) @ [(m, [])])]"
          by (simp only: D' dict_modify_last[OF yA] dict_set_new[OF mB])
        have d3: "dict_modify y (dict_modify m (\<lambda>ds. ds @ [d]))
                    (A @ [(y, (B @ [(m0, ds)]) @ [(m, [])])])
                  = A @ [(y, (B @ [(m0, ds)]) @ [(m, [] @ [d])])]"
          by (simp only: dict_modify_last[OF yA] dict_modify_last[OF mB])
        have "add_day c D = dict_modify y (dict_modify m (\<lambda>ds. ds @ [d]))
                    (dict_modify y (dict_set m []) D)"
          using has hm by (simp add: add_day_def c)
        then have eq: "add_day c D = A @ [(y, (B @ [(m0, ds)]) @ [(m, [d])])]"
          by (simp only: d2 d3 append_Nil)
        have "flatten_dates (add_day c D) = flatten_dates D @ [request_date c]"
          unfolding eq using D True
          by (simp add: flatten_dates_def flatten_year_def flatten_month_def request_date_def c)
        moreover have "day_tree (add_day c D) y' m'" if "y < y' \<or> (y = y' \<and> m \<le> m')"
          unfolding day_tree_def eq using that A B True lt
          by (intro disjI2 exI[of _ A] exI[of _ y] exI[of _ "B @ [(m0, ds)]"] exI[of _ m]
              exI[of _ "[d]"]) auto
        ultimately show ?thesis by simp
      qed
    next
      case False
      with le have y: "y0 < y" by simp
      have yD: "y \<notin> fst ` set D" using D A y by auto
      then have nh: "\<not> dict_has y D" by (simp add: dict_has_iff)
      have eq: "add_day c D = D @ [(y, [] @ [(m, [d])])]"
        using nh
        by (simp add: add_day_def c dict_set_new[OF yD] months_of_last[OF yD]
            dict_modify_last[OF yD])
      have "flatten_dates (add_day c D) = flatten_dates D @ [request_date c]"
        unfolding eq
        by (simp add: flatten_dates_def flatten_year_def flatten_month_def request_date_def c)
      moreover have "\<forall>k \<in> fst ` set D. k < y" using D A y by auto
      then have "day_tree (add_day c D) y' m'" if "y < y' \<or> (y = y' \<and> m \<le> m')"
        unfolding day_tree_def eq using that
        by (intro disjI2 exI[of _ D] exI[of _ y] exI[of _ "[]"] exI[of _ m] exI[of _ "[d]"]) auto
      ultimately show ?thesis by simp
    qed
  qed
  then show "flatten_dates (add_day c D) = flatten_dates D @ [request_date c]"
    and "d_year c < y' \<or> (d_year c = y' \<and> d_month c \<le> m') \<Longrightarrow> day_tree (add_day c D) y' m'"
    by (simp_all add: c)
qed

lemma fold_add_day_flatten:
  assumes "day_chain c L" "day_tree D (d_year c) (d_month c)"
  shows "flatten_dates (fold add_day L D) = flatten_dates D @ map request_date L"
  using assms
proof (induction L arbitrary: c D)
  case Nil
  then show ?case by simp
next
  case (Cons x L)
  then have x: "x = c" and ch: "day_chain (next_day c) L" by simp_all
  have t: "day_tree (add_day c D) (d_year (next_day c)) (d_month (next_day c))"
    using next_day_month_mono[of c] by (intro add_day_flatten(2)[OF Cons.prems(2)]) auto
  have "flatten_dates (fold add_day (x # L) D) = flatten_dates (fold add_day L (add_day c D))"
    by (simp add: x)
  also have "\<dots> = flatten_dates (add_day c D) @ map request_date L"
    using ch t by (rule Cons.IH)
  also have "\<dots> = flatten_dates D @ map request_date (x # L)"
    by (simp add: add_day_flatten(1)[OF Cons.prems(2)] x)
  finally show ?case .
qed

lemma daily_loops_agree:
  "daily_loop c e [] = map_sum id flatten_dates (legacy_daily_loop c e [])"
proof -
  from daily_loops_together[of c e "[]" "[]"]
  consider (err) err where "daily_loop c e [] = Inl err" "legacy_daily_loop c e [] = Inl err"
    | (ok) L where "daily_loop c e [] = Inr (map request_date L)"
        "legacy_daily_loop c e [] = Inr (fold add_day L [])" "day_chain c L"
    by auto
  then show ?thesis
  proof cases
    case err
    then show ?thesis by simp
  next
    case ok
    have "flatten_dates (fold add_day L []) = flatten_dates [] @ map request_date L"
      using ok(3) by (rule fold_add_day_flatten) (simp add: day_tree_def)
    with ok show ?thesis by (simp add: flatten_dates_def)
  qed
qed

lemma daily_agrees: "daily_dates a b = map_sum id flatten_dates (legacy_daily a b)"
  by (auto simp: daily_dates_def legacy_daily_def daily_loops_agree split: sum.splits prod.splits)

subsection \<open>The two parsers\<close>

lemma parseSimpleDateRange_legacy:
  assumes "a \<noteq> []" "b \<noteq> []"
  shows "parseSimpleDateRange (Some a) (Some b)
         = map_sum id (\<lambda>(t, g). (flatten_dates t, g + 1)) (legacy_parse_dates a b)"
  using assms
  by (auto simp: parseSimpleDateRange_def legacy_parse_dates_def annual_agrees monthly_agrees
      daily_agrees ANNUAL_def MONTHLY_def DAILY_def legacy_ANNUAL_def legacy_MONTHLY_def
      legacy_DAILY_def split: sum.splits)

lemma legacy_parse_dates_empty:
  "a = [] \<or> b = [] \<Longrightarrow> legacy_parse_dates a b = Inl (ValueError MismatchedGranularity)"
  by (auto simp: legacy_parse_dates_def)

lemma parseSimpleDateRange_empty:
  "a = [] \<or> b = [] \<Longrightarrow> parseSimpleDateRange (Some a) (Some b) = Inl (ValueError StartEndRequired)"
  by (auto simp: parseSimpleDateRange_def)

text \<open>
  C10. On every pair of date strings the earlier parser and the current simple-range
  parser agree: when the earlier one returns its nested structure, the current one
  returns that structure flattened in insertion order, with the same grain (the grain
  constants of the two modules differ by one); when the current one returns, so does
  the earlier one, with a structure that flattens to the same dates; and when the
  earlier one raises, the current one raises, with the same error (for an empty string
  the current parser reports the missing date, the earlier one mismatched granularity).
\<close>

theorem legacy_parse_dates_agrees:
  "(\<forall>e. legacy_parse_dates a b = Inl e \<longrightarrow>
      parseSimpleDateRange (Some a) (Some b)
      = Inl (if a = [] \<or> b = [] then ValueError StartEndRequired else e))
 \<and> (\<forall>t g. legacy_parse_dates a b = Inr (t, g) \<longrightarrow>
      parseSimpleDateRange (Some a) (Some b) = Inr (flatten_dates t, g + 1))
 \<and> (\<forall>ds g. parseSimpleDateRange (Some a) (Some b) = Inr (ds, g) \<longrightarrow>
      (\<exists>t. legacy_parse_dates a b = Inr (t, g - 1) \<and> flatten_dates t = ds))"
proof (cases "a = [] \<or> b = []")
  case True
  then show ?thesis
    using legacy_parse_dates_empty[of a b] parseSimpleDateRange_empty[of a b] by simp
next
  case False
  then have eq: "parseSimpleDateRange (Some a) (Some b)
         = map_sum id (\<lambda>(t, g). (flatten_dates t, g + 1)) (legacy_parse_dates a b)"
    by (intro parseSimpleDateRange_legacy) simp_all
  show ?thesis
  proof (cases "legacy_parse_dates a b")
    case (Inl e)
    with eq False show ?thesis by simp
  next
    case (Inr r)
    obtain t g where r: "r = (t, g)" by (cases r)
    with eq Inr False show ?thesis by simp
  qed
qed

theorem legacy_parse_dates_agrees_witness:
  "parseSimpleDateRange (Some ''2020-02-27'') (Some ''2020-03-01'')
     = Inr (flatten_dates [(2020, [(2, [27, 28, 29]), (3, [1])])], 3)
 \<and> parseSimpleDateRange (Some ''2020-13'') (Some ''2021-01'') = Inl (ValueError (InvalidMonth 13))
 \<and> parseSimpleDateRange (Some ''2020'') (Some ''2020-01'')
     = Inl (ValueError MismatchedGranularity)
 \<and> (\<exists>t. legacy_parse_dates ''2019'' ''2021'' = Inr (t, 0)
        \<and> flatten_dates t = [RequestDate 2019 None None, RequestDate 2020 None None,
                              RequestDate 2021 None None])"
proof (intro conjI)
  have "legacy_parse_dates ''2020-02-27'' ''2020-03-01''
        = Inr ([(2020, [(2, [27, 28, 29]), (3, [1])])], 2)"
    by code_simp
  with legacy_parse_dates_agrees[of "''2020-02-27''" "''2020-03-01''"]
  have "parseSimpleDateRange (Some ''2020-02-27'') (Some ''2020-03-01'')
     = Inr (flatten_dates [(2020, [(2, [27, 28, 29]), (3, [1])])], 2 + 1)"
    by blast
  then show "parseSimpleDateRange (Some ''2020-02-27'') (Some ''2020-03-01'')
     = Inr (flatten_dates [(2020, [(2, [27, 28, 29]), (3, [1])])], 3)"
    by simp
next
  have "legacy_parse_dates ''2020-13'' ''2021-01'' = Inl (ValueError (InvalidMonth 13))"
    by code_simp
  with legacy_parse_dates_agrees[of "''2020-13''" "''2021-01''"]
  have "parseSimpleDateRange (Some ''2020-13'') (Some ''2021-01'')
        = Inl (if ''2020-13'' = [] \<or> ''2021-01'' = [] then ValueError StartEndRequired
               else ValueError (InvalidMonth 13))"
    by blast
  then show "parseSimpleDateRange (Some ''2020-13'') (Some ''2021-01'')
        = Inl (ValueError (InvalidMonth 13))"
    by simp
next
  have "legacy_parse_dates ''2020'' ''2020-01'' = Inl (ValueError MismatchedGranularity)"
    by code_simp
  with legacy_parse_dates_agrees[of "''2020''" "''2020-01''"]
  have "parseSimpleDateRange (Some ''2020'') (Some ''2020-01'')
        = Inl (if ''2020'' = [] \<or> ''2020-01'' = [] then ValueError StartEndRequired
               else ValueError MismatchedGranularity)"
    by blast
  then show "parseSimpleDateRange (Some ''2020'') (Some ''2020-01'')
        = Inl (ValueError MismatchedGranularity)"
    by simp
next
  have "parseSimpleDateRange (Some ''2019'') (Some ''2021'')
        = Inr ([RequestDate 2019 None None, RequestDate 2020 None None,
                RequestDate 2021 None None], 1)"
    by code_simp
  with legacy_parse_dates_agrees[of "''2019''" "''2021''"]
  have "\<exists>t. legacy_parse_dates ''2019'' ''2021'' = Inr (t, 1 - 1)
        \<and> flatten_dates t = [RequestDate 2019 None None, RequestDate 2020 None None,
                              RequestDate 2021 None None]"
    by blast
  then show "\<exists>t. legacy_parse_dates ''2019'' ''2021'' = Inr (t, 0)
        \<and> flatten_dates t = [RequestDate 2019 None None, RequestDate 2020 None None,
                              RequestDate 2021 None None]"
    by simp
qed
section \<open>Properties of request construction\<close>

lemma extension_for_result:
  assumes "extension_for rt fmt = Inr ext"
  shows "FILE_EXT (format_or_default rt fmt) = Some ext"
    and "rt = REQ_RASTER \<Longrightarrow> format_or_default rt fmt \<in> set GRID_OUTPUT"
    and "rt = REQ_POINT \<Longrightarrow> format_or_default rt fmt \<in> set POINT_OUTPUT"
  using assms
  by (auto simp: extension_for_def Let_def split: if_splits option.splits)

lemma init_Inr_extension:
  assumes "DataRequest_init dsc dv ds de ys ms dys gm geom crs res rm rt fmt md = Inr req"
  shows "extension_for rt fmt = Inr (self_file_extension req)"
  using assms
  by (auto simp: DataRequest_init_def Let_def split: sum.splits if_splits prod.splits)

lemma init_Inr_method:
  assumes "DataRequest_init dsc dv ds de ys ms dys gm geom crs res rm rt fmt md = Inr req"
  shows "self_ri_method req = method_or_default rm"
    and "rt = REQ_RASTER \<Longrightarrow> method_or_default rm \<in> set RESAMPLE_METHODS"
    and "rt = REQ_POINT \<Longrightarrow> method_or_default rm \<in> set POINT_METHODS"
  using assms
  by (auto simp: DataRequest_init_def Let_def split: sum.splits if_splits prod.splits)

lemma init_bad_method:
  assumes "parseDates ds de ys ms dys = Inr pd"
  shows "rt = REQ_RASTER \<Longrightarrow> method_or_default rm \<notin> set RESAMPLE_METHODS \<Longrightarrow>
         DataRequest_init dsc dv ds de ys ms dys gm geom crs res rm rt fmt md
         = Inl (ValueError (InvalidResamplingMethod (method_or_default rm)))"
    and "rt = REQ_POINT \<Longrightarrow> method_or_default rm \<notin> set POINT_METHODS \<Longrightarrow>
         DataRequest_init dsc dv ds de ys ms dys gm geom crs res rm rt fmt md
         = Inl (ValueError (InvalidPointMethod (method_or_default rm)))"
  using assms
  by (auto simp: DataRequest_init_def Let_def REQ_RASTER_def REQ_POINT_def split: prod.splits)

text \<open>
  C7. For every request that construction returns: with no output format given, the
  format is \<open>geotiff\<close> and the extension \<open>.tif\<close> for a RASTER request, \<open>csv\<close> and \<open>.csv\<close>
  for a POINT request; and the file extension is always the entry of the fixed table
  for the format in force, the table being geotiff \<open>\<mapsto>\<close> .tif, netcdf \<open>\<mapsto>\<close> .nc,
  csv \<open>\<mapsto>\<close> .csv, shapefile \<open>\<mapsto>\<close> .shp.
\<close>

theorem init_file_extension:
  assumes "DataRequest_init dsc dv ds de ys ms dys gm geom crs res rm rt fmt md = Inr req"
  shows "(fmt = None \<and> rt = REQ_RASTER \<longrightarrow>
            format_or_default rt fmt = ''geotiff'' \<and> self_file_extension req = ''.tif'')
       \<and> (fmt = None \<and> rt = REQ_POINT \<longrightarrow>
            format_or_default rt fmt = ''csv'' \<and> self_file_extension req = ''.csv'')
       \<and> FILE_EXT (format_or_default rt fmt) = Some (self_file_extension req)
       \<and> FILE_EXT ''geotiff'' = Some ''.tif'' \<and> FILE_EXT ''netcdf'' = Some ''.nc''
       \<and> FILE_EXT ''csv'' = Some ''.csv'' \<and> FILE_EXT ''shapefile'' = Some ''.shp''"
proof -
  have ext: "FILE_EXT (format_or_default rt fmt) = Some (self_file_extension req)"
    using init_Inr_extension[OF assms] by (rule extension_for_result(1))
  have tab: "FILE_EXT ''geotiff'' = Some ''.tif''" "FILE_EXT ''netcdf'' = Some ''.nc''"
    "FILE_EXT ''csv'' = Some ''.csv''" "FILE_EXT ''shapefile'' = Some ''.shp''"
    by (simp_all add: FILE_EXT_def)
  have r: "format_or_default rt fmt = ''geotiff'' \<and> self_file_extension req = ''.tif''"
    if "fmt = None \<and> rt = REQ_RASTER"
    using that ext tab by (simp add: format_or_default_def)
  have p: "format_or_default rt fmt = ''csv'' \<and> self_file_extension req = ''.csv''"
    if "fmt = None \<and> rt = REQ_POINT"
    using that ext tab by (simp add: format_or_default_def REQ_POINT_def REQ_RASTER_def)
  from r p ext tab show ?thesis by blast
qed

theorem init_file_extension_witness:
  "(\<exists>req. DataRequest_init example_catalog [(''dem'', [''elev''])] None None None None None
            None None () () None REQ_RASTER None [] = Inr req
          \<and> self_file_extension req = ''.tif'')
 \<and> (\<exists>req. DataRequest_init example_catalog [(''prism'', [''ppt''])] (Some ''2020'')
            (Some ''2021'') None None None None (Some SubsetMultiPoint) () () None REQ_POINT
            None [] = Inr req
          \<and> self_file_extension req = ''.csv'')
 \<and> (\<exists>req. DataRequest_init example_catalog [(''prism'', [''ppt''])] (Some ''2020'')
            (Some ''2021'') None None None None (Some SubsetMultiPoint) () () None REQ_POINT
            (Some ''shapefile'') [] = Inr req
          \<and> self_file_extension req = ''.shp'')"
proof (intro conjI)
  have "case DataRequest_init example_catalog [(''dem'', [''elev''])] None None None None None
            None None () () None REQ_RASTER None [] of
          Inl e \<Rightarrow> False | Inr r \<Rightarrow> True"
    by code_simp
  then obtain req where r: "DataRequest_init example_catalog [(''dem'', [''elev''])] None None
            None None None None None () () None REQ_RASTER None [] = Inr req"
    by (auto split: sum.splits)
  from init_file_extension[OF r] have "self_file_extension req = ''.tif''" by blast
  with r show "\<exists>req. DataRequest_init example_catalog [(''dem'', [''elev''])] None None None
            None None None None () () None REQ_RASTER None [] = Inr req
          \<and> self_file_extension req = ''.tif''"
    by blast
next
  have "case DataRequest_init example_catalog [(''prism'', [''ppt''])] (Some ''2020'')
            (Some ''2021'') None None None None (Some SubsetMultiPoint) () () None REQ_POINT
            None [] of
          Inl e \<Rightarrow> False | Inr r \<Rightarrow> True"
    by code_simp
  then obtain req where r: "DataRequest_init example_catalog [(''prism'', [''ppt''])]
            (Some ''2020'') (Some ''2021'') None None None None (Some SubsetMultiPoint) () ()
            None REQ_POINT None [] = Inr req"
    by (auto split: sum.splits)
  from init_file_extension[OF r] have "self_file_extension req = ''.csv''" by blast
  with r show "\<exists>req. DataRequest_init example_catalog [(''prism'', [''ppt''])] (Some ''2020'')
            (Some ''2021'') None None None None (Some SubsetMultiPoint) () () None REQ_POINT
            None [] = Inr req
          \<and> self_file_extension req = ''.csv''"
    by blast
next
  have "case DataRequest_init example_catalog [(''prism'', [''ppt''])] (Some ''2020'')
            (Some ''2021'') None None None None (Some SubsetMultiPoint) () () None REQ_POINT
            (Some ''shapefile'') [] of
          Inl e \<Rightarrow> False | Inr r \<Rightarrow> True"
    by code_simp
  then obtain req where r: "DataRequest_init example_catalog [(''prism'', [''ppt''])]
            (Some ''2020'') (Some ''2021'') None None None None (Some SubsetMultiPoint) () ()
            None REQ_POINT (Some ''shapefile'') [] = Inr req"
    by (auto split: sum.splits)
  from init_file_extension[OF r]
  have "FILE_EXT (format_or_default REQ_POINT (Some ''shapefile'')) = Some (self_file_extension req)"
    by blast
  then have "self_file_extension req = ''.shp''"
    by (simp add: format_or_default_def FILE_EXT_def)
  with r show "\<exists>req. DataRequest_init example_catalog [(''prism'', [''ppt''])] (Some ''2020'')
            (Some ''2021'') None None None None (Some SubsetMultiPoint) () () None REQ_POINT
            (Some ''shapefile'') [] = Inr req
          \<and> self_file_extension req = ''.shp''"
    by blast
qed

text \<open>
  C8. Construction returns a request only if the method, \<open>nearest\<close> when absent, is one
  of the resample methods for a RASTER request or one of the interpolation methods for
  a POINT request; otherwise it raises, and once the dates have parsed the error is the
  invalid-method one. A RASTER request with method \<open>linear\<close> never constructs.
\<close>

theorem init_method_checked:
  "(DataRequest_init dsc dv ds de ys ms dys gm geom crs res rm rt fmt md = Inr req \<longrightarrow>
      self_ri_method req = method_or_default rm
      \<and> (rt = REQ_RASTER \<longrightarrow> method_or_default rm \<in> set RESAMPLE_METHODS)
      \<and> (rt = REQ_POINT \<longrightarrow> method_or_default rm \<in> set POINT_METHODS))
 \<and> ((rt = REQ_RASTER \<and> method_or_default rm \<notin> set RESAMPLE_METHODS)
      \<or> (rt = REQ_POINT \<and> method_or_default rm \<notin> set POINT_METHODS) \<longrightarrow>
      (\<exists>e. DataRequest_init dsc dv ds de ys ms dys gm geom crs res rm rt fmt md = Inl e))
 \<and> (parseDates ds de ys ms dys = Inr pd \<and> rt = REQ_RASTER
      \<and> method_or_default rm \<notin> set RESAMPLE_METHODS \<longrightarrow>
      DataRequest_init dsc dv ds de ys ms dys gm geom crs res rm rt fmt md
      = Inl (ValueError (InvalidResamplingMethod (method_or_default rm))))
 \<and> (parseDates ds de ys ms dys = Inr pd \<and> rt = REQ_POINT
      \<and> method_or_default rm \<notin> set POINT_METHODS \<longrightarrow>
      DataRequest_init dsc dv ds de ys ms dys gm geom crs res rm rt fmt md
      = Inl (ValueError (InvalidPointMethod (method_or_default rm))))
 \<and> (rt = REQ_RASTER \<and> rm = Some ''linear'' \<longrightarrow>
      (\<exists>e. DataRequest_init dsc dv ds de ys ms dys gm geom crs res rm rt fmt md = Inl e))
 \<and> method_or_default None = ''nearest''
 \<and> set RESAMPLE_METHODS = {''nearest'', ''bilinear'', ''cubic'', ''cubic-spline'', ''lanczos'',
                            ''average'', ''mode''}
 \<and> set POINT_METHODS = {''nearest'', ''linear''}"
proof -
  let ?init = "DataRequest_init dsc dv ds de ys ms dys gm geom crs res rm rt fmt md"
  have ok: "self_ri_method req = method_or_default rm
      \<and> (rt = REQ_RASTER \<longrightarrow> method_or_default rm \<in> set RESAMPLE_METHODS)
      \<and> (rt = REQ_POINT \<longrightarrow> method_or_default rm \<in> set POINT_METHODS)"
    if "?init = Inr req"
    using init_Inr_method[OF that] by blast
  have bad: "\<exists>e. ?init = Inl e"
    if "(rt = REQ_RASTER \<and> method_or_default rm \<notin> set RESAMPLE_METHODS)
      \<or> (rt = REQ_POINT \<and> method_or_default rm \<notin> set POINT_METHODS)"
  proof (cases ?init)
    case (Inl e)
    then show ?thesis by blast
  next
    case (Inr r)
    from init_Inr_method(2,3)[OF Inr] that show ?thesis by blast
  qed
  have raster: "?init = Inl (ValueError (InvalidResamplingMethod (method_or_default rm)))"
    if "parseDates ds de ys ms dys = Inr pd \<and> rt = REQ_RASTER
      \<and> method_or_default rm \<notin> set RESAMPLE_METHODS"
    using that by (intro init_bad_method(1)[of ds de ys ms dys pd]) simp_all
  have point: "?init = Inl (ValueError (InvalidPointMethod (method_or_default rm)))"
    if "parseDates ds de ys ms dys = Inr pd \<and> rt = REQ_POINT
      \<and> method_or_default rm \<notin> set POINT_METHODS"
    using that by (intro init_bad_method(2)[of ds de ys ms dys pd]) simp_all
  have lin: "''linear'' \<notin> set RESAMPLE_METHODS" by (simp add: RESAMPLE_METHODS_def)
  have linear: "\<exists>e. ?init = Inl e" if "rt = REQ_RASTER \<and> rm = Some ''linear''"
    using that lin by (intro bad) (simp add: method_or_default_def)
  have vals: "method_or_default None = ''nearest''"
    "set RESAMPLE_METHODS = {''nearest'', ''bilinear'', ''cubic'', ''cubic-spline'', ''lanczos'',
                            ''average'', ''mode''}"
    "set POINT_METHODS = {''nearest'', ''linear''}"
    by (simp_all add: method_or_default_def RESAMPLE_METHODS_def POINT_METHODS_def)
  from ok bad raster point linear vals show ?thesis by blast
qed

theorem init_method_checked_witness:
  "(\<exists>req. DataRequest_init example_catalog [(''prism'', [''ppt''])] (Some ''2020'')
            (Some ''2021'') None None None None None () () (Some ''bilinear'') REQ_RASTER
            None [] = Inr req
          \<and> self_ri_method req = ''bilinear'' \<and> ''bilinear'' \<in> set RESAMPLE_METHODS)
 \<and> DataRequest_init example_catalog [(''prism'', [''ppt''])] (Some ''2020'') (Some ''2021'')
       None None None None None () () (Some ''linear'') REQ_RASTER None []
     = Inl (ValueError (InvalidResamplingMethod ''linear''))
 \<and> DataRequest_init example_catalog [(''prism'', [''ppt''])] (Some ''2020'') (Some ''2021'')
       None None None None (Some SubsetMultiPoint) () () (Some ''cubic'') REQ_POINT None []
     = Inl (ValueError (InvalidPointMethod ''cubic''))"
proof (intro conjI)
  have "case DataRequest_init example_catalog [(''prism'', [''ppt''])] (Some ''2020'')
            (Some ''2021'') None None None None None () () (Some ''bilinear'') REQ_RASTER
            None [] of
          Inl e \<Rightarrow> False | Inr r \<Rightarrow> True"
    by code_simp
  then obtain req where r: "DataRequest_init example_catalog [(''prism'', [''ppt''])]
            (Some ''2020'') (Some ''2021'') None None None None None () ()
            (Some ''bilinear'') REQ_RASTER None [] = Inr req"
    by (auto split: sum.splits)
  from init_method_checked[of example_catalog "[(''prism'', [''ppt''])]" "Some ''2020''"
      "Some ''2021''" None None None None None "()" "()" "Some ''bilinear''" REQ_RASTER None "[]"
      req] r
  have "self_ri_method req = method_or_default (Some ''bilinear'')
        \<and> method_or_default (Some ''bilinear'') \<in> set RESAMPLE_METHODS"
    by blast
  then have "self_ri_method req = ''bilinear'' \<and> ''bilinear'' \<in> set RESAMPLE_METHODS"
    by (simp add: method_or_default_def)
  with r show "\<exists>req. DataRequest_init example_catalog [(''prism'', [''ppt''])] (Some ''2020'')
            (Some ''2021'') None None None None None () () (Some ''bilinear'') REQ_RASTER
            None [] = Inr req
          \<and> self_ri_method req = ''bilinear'' \<and> ''bilinear'' \<in> set RESAMPLE_METHODS"
    by blast
next
  have pd: "parseDates (Some ''2020'') (Some ''2021'') None None None
            = Inr ([RequestDate 2020 None None, RequestDate 2021 None None], ANNUAL)"
    by code_simp
  have bad: "method_or_default (Some ''linear'') \<notin> set RESAMPLE_METHODS"
    by (simp add: method_or_default_def RESAMPLE_METHODS_def)
  from init_method_checked[of example_catalog "[(''prism'', [''ppt''])]" "Some ''2020''"
      "Some ''2021''" None None None None None "()" "()" "Some ''linear''" REQ_RASTER None "[]"
      _ "([RequestDate 2020 None None, RequestDate 2021 None None], ANNUAL)"] pd bad
  have "DataRequest_init example_catalog [(''prism'', [''ppt''])] (Some ''2020'') (Some ''2021'')
       None None None None None () () (Some ''linear'') REQ_RASTER None []
     = Inl (ValueError (InvalidResamplingMethod (method_or_default (Some ''linear''))))"
    by blast
  then show "DataRequest_init example_catalog [(''prism'', [''ppt''])] (Some ''2020'')
       (Some ''2021'') None None None None None () () (Some ''linear'') REQ_RASTER None []
     = Inl (ValueError (InvalidResamplingMethod ''linear''))"
    by (simp add: method_or_default_def)
next
  have pd: "parseDates (Some ''2020'') (Some ''2021'') None None None
            = Inr ([RequestDate 2020 None None, RequestDate 2021 None None], ANNUAL)"
    by code_simp
  have bad: "method_or_default (Some ''cubic'') \<notin> set POINT_METHODS"
    by (simp add: method_or_default_def POINT_METHODS_def)
  from init_method_checked[of example_catalog "[(''prism'', [''ppt''])]" "Some ''2020''"
      "Some ''2021''" None None None None "Some SubsetMultiPoint" "()" "()" "Some ''cubic''"
      REQ_POINT None "[]" _ "([RequestDate 2020 None None, RequestDate 2021 None None], ANNUAL)"]
    pd bad
  have "DataRequest_init example_catalog [(''prism'', [''ppt''])] (Some ''2020'') (Some ''2021'')
       None None None None (Some SubsetMultiPoint) () () (Some ''cubic'') REQ_POINT None []
     = Inl (ValueError (InvalidPointMethod (method_or_default (Some ''cubic''))))"
    by blast
  then show "DataRequest_init example_catalog [(''prism'', [''ppt''])] (Some ''2020'')
       (Some ''2021'') None None None None (Some SubsetMultiPoint) () () (Some ''cubic'')
       REQ_POINT None []
     = Inl (ValueError (InvalidPointMethod ''cubic''))"
    by (simp add: method_or_default_def)
qed

subsection \<open>The strict grain policy\<close>

lemma verify_datasets_names_offender:
  assumes "\<forall>dsid \<in> fst ` set dv. dsc dsid \<noteq> None"
    and "\<exists>dsid \<in> fst ` set dv. lacks_grain dsc g dsid"
  shows "\<exists>d \<in> fst ` set dv. lacks_grain dsc g d
           \<and> verify_datasets dsc g dv = Inl (ValueError (NoRequestedGranularity d))"
  using assms
proof (induction dv)
  case Nil
  then show ?case by simp
next
  case (Cons p dv)
  obtain dsid vs where p: "p = (dsid, vs)" by (cases p)
  from Cons.prems(1) p obtain entry where e: "dsc dsid = Some entry" by auto
  show ?case
  proof (cases "lacks_grain dsc g dsid")
    case True
    then have "verify_datasets dsc g (p # dv) = Inl (ValueError (NoRequestedGranularity dsid))"
      using e p by (simp add: lacks_grain_def)
    with True p show ?thesis by auto
  next
    case False
    then have step: "verify_datasets dsc g (p # dv) = verify_datasets dsc g dv"
      using e p by (auto simp: lacks_grain_def)
    from False Cons.prems(2) p have "\<exists>dsid \<in> fst ` set dv. lacks_grain dsc g dsid" by auto
    with Cons.IH Cons.prems(1) obtain d where "d \<in> fst ` set dv" "lacks_grain dsc g d"
      "verify_datasets dsc g dv = Inl (ValueError (NoRequestedGranularity d))"
      by auto
    with step show ?thesis by auto
  qed
qed

lemma verify_datasets_passes:
  assumes "\<forall>dsid \<in> fst ` set dv. dsc dsid \<noteq> None \<and> \<not> lacks_grain dsc g dsid"
  shows "verify_datasets dsc g dv = Inr ()"
  using assms by (induction dv) (auto simp: lacks_grain_def)

lemma verify_datasets_Inr:
  assumes "verify_datasets dsc g dv = Inr u"
  shows "\<forall>dsid \<in> fst ` set dv. \<not> lacks_grain dsc g dsid"
  using assms
proof (induction dv)
  case Nil
  then show ?case by simp
next
  case (Cons p dv)
  obtain dsid vs where p: "p = (dsid, vs)" by (cases p)
  from Cons.prems p have here: "\<not> lacks_grain dsc g dsid"
    and rest: "verify_datasets dsc g dv = Inr u"
    by (auto simp: lacks_grain_def split: option.splits if_splits)
  from Cons.IH[OF rest] here p show ?case by simp
qed

lemma dataset_metadata_known:
  assumes "\<forall>dsid \<in> fst ` set dv. dsc dsid \<noteq> None"
  shows "\<exists>m. dataset_metadata dsc dv = Inr m"
  using assms by (induction dv) (auto split: sum.splits)

lemma init_Inr_verify:
  assumes "DataRequest_init dsc dv ds de ys ms dys gm geom crs res rm rt fmt md = Inr req"
    and "parseDates ds de ys ms dys = Inr (dts, g)"
  shows "\<exists>u. verifyGrains dsc dv (grain_method_or_default gm) g = Inr u"
  using assms
  by (auto simp: DataRequest_init_def Let_def split: sum.splits if_splits prod.splits)

lemma init_reaches_verify:
  assumes "parseDates ds de ys ms dys = Inr (dts, g)"
    and "(rt = REQ_RASTER \<and> method_or_default rm \<in> set RESAMPLE_METHODS)
         \<or> (rt = REQ_POINT \<and> method_or_default rm \<in> set POINT_METHODS
             \<and> geom = Some SubsetMultiPoint)"
    and "\<forall>dsid \<in> fst ` set dv. dsc dsid \<noteq> None"
    and "gm = None \<or> gm = Some ''strict''"
    and "verify_datasets dsc g dv = Inl e"
  shows "DataRequest_init dsc dv ds de ys ms dys gm geom crs res rm rt fmt md = Inl e"
proof -
  obtain m where m: "dataset_metadata dsc dv = Inr m"
    using dataset_metadata_known[OF assms(3)] by blast
  have gmd: "grain_method_or_default gm = ''strict''"
    using assms(4) by (auto simp: grain_method_or_default_def)
  have strict: "''strict'' \<in> set GRAIN_METHODS" by (simp add: GRAIN_METHODS_def)
  show ?thesis
    using assms(1,2,5) m gmd strict
    by (auto simp: DataRequest_init_def Let_def getMetadata_def verifyGrains_def
        REQ_RASTER_def REQ_POINT_def)
qed

text \<open>
  C9. Under the strict policy, which is also the default, with the dates parsed to
  grain \<open>g\<close>: if some requested dataset is temporal and its supported grains do not
  contain \<open>g\<close>, construction fails; when the checks before the grain check pass and
  every requested dataset is in the catalog, the error names such a dataset. If every
  requested dataset is nontemporal or supports \<open>g\<close>, the grain check passes.
\<close>

theorem init_strict_grains:
  assumes "gm = None \<or> gm = Some ''strict''"
    and "parseDates ds de ys ms dys = Inr (dts, g)"
  shows "((\<exists>dsid \<in> fst ` set dv. lacks_grain dsc g dsid) \<longrightarrow>
            (\<exists>e. DataRequest_init dsc dv ds de ys ms dys gm geom crs res rm rt fmt md = Inl e))
       \<and> ((\<exists>dsid \<in> fst ` set dv. lacks_grain dsc g dsid)
            \<and> ((rt = REQ_RASTER \<and> method_or_default rm \<in> set RESAMPLE_METHODS)
                \<or> (rt = REQ_POINT \<and> method_or_default rm \<in> set POINT_METHODS
                    \<and> geom = Some SubsetMultiPoint))
            \<and> (\<forall>dsid \<in> fst ` set dv. dsc dsid \<noteq> None) \<longrightarrow>
            (\<exists>d \<in> fst ` set dv. lacks_grain dsc g d
               \<and> DataRequest_init dsc dv ds de ys ms dys gm geom crs res rm rt fmt md
                   = Inl (ValueError (NoRequestedGranularity d))))
       \<and> ((\<forall>dsid \<in> fst ` set dv. dsc dsid \<noteq> None \<and> \<not> lacks_grain dsc g dsid) \<longrightarrow>
            verifyGrains dsc dv (grain_method_or_default gm) g = Inr ())"
proof -
  let ?init = "DataRequest_init dsc dv ds de ys ms dys gm geom crs res rm rt fmt md"
  have gmd: "grain_method_or_default gm = ''strict''"
    using assms(1) by (auto simp: grain_method_or_default_def)
  have fails: "\<exists>e. ?init = Inl e" if off: "\<exists>dsid \<in> fst ` set dv. lacks_grain dsc g dsid"
  proof (cases ?init)
    case (Inl e)
    then show ?thesis by blast
  next
    case (Inr req)
    from init_Inr_verify[OF Inr assms(2)] obtain u where
      "verify_datasets dsc g dv = Inr u"
      by (auto simp: gmd verifyGrains_def)
    from verify_datasets_Inr[OF this] off show ?thesis by blast
  qed
  have names: "\<exists>d \<in> fst ` set dv. lacks_grain dsc g d
               \<and> ?init = Inl (ValueError (NoRequestedGranularity d))"
    if h: "(\<exists>dsid \<in> fst ` set dv. lacks_grain dsc g dsid)
            \<and> ((rt = REQ_RASTER \<and> method_or_default rm \<in> set RESAMPLE_METHODS)
                \<or> (rt = REQ_POINT \<and> method_or_default rm \<in> set POINT_METHODS
                    \<and> geom = Some SubsetMultiPoint))
            \<and> (\<forall>dsid \<in> fst ` set dv. dsc dsid \<noteq> None)"
  proof -
    from h have known: "\<forall>dsid \<in> fst ` set dv. dsc dsid \<noteq> None"
      and off: "\<exists>dsid \<in> fst ` set dv. lacks_grain dsc g dsid"
      and early: "(rt = REQ_RASTER \<and> method_or_default rm \<in> set RESAMPLE_METHODS)
                \<or> (rt = REQ_POINT \<and> method_or_default rm \<in> set POINT_METHODS
                    \<and> geom = Some SubsetMultiPoint)"
      by blast+
    from verify_datasets_names_offender[OF known off]
    obtain d where d: "d \<in> fst ` set dv" "lacks_grain dsc g d"
      "verify_datasets dsc g dv = Inl (ValueError (NoRequestedGranularity d))"
      by blast
    have "?init = Inl (ValueError (NoRequestedGranularity d))"
      using assms(2) early known assms(1) d(3) by (rule init_reaches_verify)
    with d show ?thesis by blast
  qed
  have passes: "verifyGrains dsc dv (grain_method_or_default gm) g = Inr ()"
    if "\<forall>dsid \<in> fst ` set dv. dsc dsid \<noteq> None \<and> \<not> lacks_grain dsc g dsid"
    using verify_datasets_passes[OF that] by (simp add: gmd verifyGrains_def)
  from fails names passes show ?thesis by blast
qed

theorem init_strict_grains_witness:
  "(\<exists>d \<in> fst ` set [(''prism'', [''ppt'']), (''modis'', [''ndvi''])].
      lacks_grain example_catalog MONTHLY d
      \<and> DataRequest_init example_catalog [(''prism'', [''ppt'']), (''modis'', [''ndvi''])]
           (Some ''2020-01'') (Some ''2020-02'') None None None None None () () None
           REQ_RASTER None []
         = Inl (ValueError (NoRequestedGranularity d)))
 \<and> verifyGrains example_catalog [(''prism'', [''ppt'']), (''dem'', [''elev''])]
      (grain_method_or_default (Some ''strict'')) MONTHLY = Inr ()"
proof (intro conjI)
  have pd: "parseDates (Some ''2020-01'') (Some ''2020-02'') None None None
            = Inr ([RequestDate 2020 (Some 1) None, RequestDate 2020 (Some 2) None], MONTHLY)"
    by code_simp
  have lacks: "lacks_grain example_catalog MONTHLY ''modis''" by code_simp
  then have off: "\<exists>dsid \<in> fst ` set [(''prism'', [''ppt'']), (''modis'', [''ndvi''])].
      lacks_grain example_catalog MONTHLY dsid"
    by simp
  have early: "REQ_RASTER = REQ_RASTER \<and> method_or_default None \<in> set RESAMPLE_METHODS"
    by (simp add: method_or_default_def RESAMPLE_METHODS_def)
  have known: "\<forall>dsid \<in> fst ` set [(''prism'', [''ppt'']), (''modis'', [''ndvi''])].
      example_catalog dsid \<noteq> None"
    by (simp add: example_catalog_def)
  have strict: "(None :: string option) = None \<or> None = Some ''strict''" by simp
  from init_strict_grains[OF strict pd,
      where dv = "[(''prism'', [''ppt'']), (''modis'', [''ndvi''])]" and dsc = example_catalog
        and rt = REQ_RASTER and rm = None and geom = None and crs = "()" and res = "()"
        and fmt = None and md = "[]", THEN conjunct2, THEN conjunct1] off early known
  show "\<exists>d \<in> fst ` set [(''prism'', [''ppt'']), (''modis'', [''ndvi''])].
      lacks_grain example_catalog MONTHLY d
      \<and> DataRequest_init example_catalog [(''prism'', [''ppt'']), (''modis'', [''ndvi''])]
           (Some ''2020-01'') (Some ''2020-02'') None None None None None () () None
           REQ_RASTER None []
         = Inl (ValueError (NoRequestedGranularity d))"
    by blast
next
  have pd: "parseDates (Some ''2020-01'') (Some ''2020-02'') None None None
            = Inr ([RequestDate 2020 (Some 1) None, RequestDate 2020 (Some 2) None], MONTHLY)"
    by code_simp
  have ok: "\<forall>dsid \<in> fst ` set [(''prism'', [''ppt'']), (''dem'', [''elev''])].
      example_catalog dsid \<noteq> None \<and> \<not> lacks_grain example_catalog MONTHLY dsid"
    by (simp add: example_catalog_def lacks_grain_def MONTHLY_def ANNUAL_def DAILY_def)
  have strict: "Some ''strict'' = None \<or> Some ''strict'' = Some ''strict''" by simp
  from init_strict_grains[OF strict pd,
      where dv = "[(''prism'', [''ppt'']), (''dem'', [''elev''])]" and dsc = example_catalog
        and rt = REQ_RASTER and rm = None and geom = None and crs = "()" and res = "()"
        and fmt = None and md = "[]", THEN conjunct2, THEN conjunct2] ok
  show "verifyGrains example_catalog [(''prism'', [''ppt'']), (''dem'', [''elev''])]
      (grain_method_or_default (Some ''strict'')) MONTHLY = Inr ()"
    by (rule mp)
qed
section \<open>Properties of the output file names\<close>

text \<open>
  C2 describes the names of the files that the raster branch writes for the extension
  \<open>.tif\<close>. In the source the branch raises as soon as the results hold one time step:
  the call that builds the name reads the name \<^verbatim>\<open>grain\<close>, bound nowhere, which is a
  \<^verbatim>\<open>NameError\<close>; the method called next reads \<^verbatim>\<open>self._requestDateAsString\<close>, which the
  class does not define, and the date-string method reads the grain constants without
  their module.
\<close>

theorem writeRasterFiles_raises:
  "writeRasterFiles output_module_globals
     [(''prism'', [(''ppt'', [RequestDate 2020 (Some 1) None])])] ''.tif''
   = Inl (NameError ''grain'')
 \<and> getSingleLayerOutputFileName output_module_globals ''prism'' ''ppt'' (IntV MONTHLY)
     (Some (RequestDate 2020 (Some 1) None))
   = Inl (AttributeError ''_requestDateAsString'')
 \<and> requestDateAsString output_module_globals (IntV MONTHLY)
     (Some (RequestDate 2020 (Some 1) None))
   = Inl (NameError ''NONE'')"
  by code_simp

theorem writeRasterFiles_raises_witness:
  "writeRasterFiles output_module_globals
     [(''prism'', [(''ppt'', [RequestDate 2020 (Some 1) None])])] ''.tif''
   = Inl (NameError ''grain'')"
  using writeRasterFiles_raises by blast

text \<open>
  With the grain constants in scope the date string is the year, the year and the
  two-digit month, or the year and the two-digit month and day, and empty for NONE.
\<close>

lemma requestDateAsString_with_grains:
  "requestDateAsString (globals_with_grains g) (IntV NONE) (Some r) = Inr []"
  "requestDateAsString (globals_with_grains g) (IntV ANNUAL) (Some (RequestDate y mo dy))
   = Inr (py_str y)"
  "requestDateAsString (globals_with_grains g) (IntV MONTHLY) (Some (RequestDate y (Some m) dy))
   = Inr (py_str y @ ''-'' @ (if 0 \<le> m \<and> m < 10 then CHR ''0'' # py_str m else py_str m))"
  "requestDateAsString (globals_with_grains g) (IntV DAILY)
     (Some (RequestDate y (Some m) (Some d)))
   = Inr (py_str y @ ''-'' @ (if 0 \<le> m \<and> m < 10 then CHR ''0'' # py_str m else py_str m)
          @ ''-'' @ (if 0 \<le> d \<and> d < 10 then CHR ''0'' # py_str d else py_str d))"
  by (simp_all add: requestDateAsString_def globals_with_grains_def load_global_def
      format_02_def NONE_def ANNUAL_def MONTHLY_def DAILY_def)

end
